theory Spec2Isabelle
  imports Complex_Main
begin

section \<open>Boids flocking simulation: the simulation core of Boids.py\<close>

text \<open>
  The model covers the classes and loops of Boids.py that move the boids: the methods
  \<open>update\<close>, \<open>apply_force\<close>, \<open>handle_boundaries\<close>, \<open>flock\<close>, \<open>normalize\<close> and \<open>limit\<close>
  of class \<open>Boid\<close>, and the loop over \<open>boids\<close> in \<open>main\<close>. The global dictionary
  \<open>params\<close> that these methods read is an explicit argument. The random initial heading,
  the sliders and all drawing are left out; drawing only reads the boids.

  The source computes with NumPy arrays of two IEEE doubles. Two readings are given.
  The first computes with exact real numbers: a vector is a pair of reals, and every
  rounding step of the source is the identity. It carries the properties that do not
  depend on rounding (which boids are scanned, which fields are written, which branch
  is taken). The second reading, the definitions whose names end in \<open>_fl\<close>, rounds every
  arithmetic operation of \<open>normalize\<close>, \<open>limit\<close> and the three rules to the nearest
  double; it carries the properties about lengths of computed vectors.

  A division whose divisor is zero gives a non-finite array in NumPy (no exception is
  raised); such a result is no real vector, so the division of the model returns
  \<open>None\<close> there and every caller propagates it. The same holds for an operation on
  doubles that overflows.
\<close>

subsection \<open>Two-dimensional vectors\<close>

type_synonym vec = "real \<times> real"

definition vadd :: "vec \<Rightarrow> vec \<Rightarrow> vec" where
  "vadd a b = (fst a + fst b, snd a + snd b)"

definition vsub :: "vec \<Rightarrow> vec \<Rightarrow> vec" where
  "vsub a b = (fst a - fst b, snd a - snd b)"

definition vscale :: "vec \<Rightarrow> real \<Rightarrow> vec" where
  "vscale a k = (fst a * k, snd a * k)"

definition vdiv :: "vec \<Rightarrow> real \<Rightarrow> vec option" where
  "vdiv a d = (if d = 0 then None else Some (fst a / d, snd a / d))"

text \<open>\<open>np.linalg.norm\<close> of a one-dimensional array: the Euclidean length.\<close>

definition vnorm :: "vec \<Rightarrow> real" where
  "vnorm a = sqrt (fst a * fst a + snd a * snd a)"

subsection \<open>Parameters and screen constants\<close>

record params =
  max_speed :: real
  perception_radius :: real
  separation_weight :: real
  alignment_weight :: real
  cohesion_weight :: real
  edge_force :: real
  separation_radius :: real

definition default_params :: params where
  "default_params = \<lparr> max_speed = 4.0, perception_radius = 32, separation_weight = 3.0,
     alignment_weight = 2.3, cohesion_weight = 1.73, edge_force = 7.25,
     separation_radius = 30 \<rparr>"


definition WIDTH :: real where "WIDTH = 1200"
definition HEIGHT :: real where "HEIGHT = 800"

subsection \<open>Boids and the store of boid objects\<close>

text \<open>
  A boid is a mutable Python object. Objects live in a store indexed by references;
  \<open>other is self\<close> of the source is equality of references. The Python list
  \<open>boids\<close> is a list of references, and \<open>self.neighbors\<close> is one too.
\<close>

type_synonym ref = nat

record boid =
  position :: vec
  velocity :: vec
  acceleration :: vec
  size_px :: nat
  neighbors :: "ref list"

type_synonym store = "ref \<Rightarrow> boid"

subsection \<open>Boid.normalize and Boid.limit, in exact arithmetic\<close>

text \<open>The versions on doubles are \<open>normalize_fl\<close> and \<open>limit_fl\<close> below.\<close>

definition normalize_vec :: "vec \<Rightarrow> vec option" where
  "normalize_vec vector =
     (let norm = vnorm vector in
      if norm > 0 then vdiv vector norm else Some vector)"

definition limit :: "vec \<Rightarrow> real \<Rightarrow> vec option" where
  "limit vector max_value =
     (let norm = vnorm vector in
      if norm > max_value
      then (case vdiv vector norm of None \<Rightarrow> None | Some u \<Rightarrow> Some (vscale u max_value))
      else Some vector)"

subsection \<open>Boid.apply_force, Boid.handle_boundaries, Boid.update\<close>

definition apply_force :: "boid \<Rightarrow> vec \<Rightarrow> boid" where
  "apply_force b force = b\<lparr>acceleration := vadd (acceleration b) force\<rparr>"

definition handle_boundaries :: "params \<Rightarrow> boid \<Rightarrow> boid" where
  "handle_boundaries p b =
     (let margin = 50;
          turn_factor = edge_force p;
          b1 = (if fst (position b) < margin
                then b\<lparr>velocity := (fst (velocity b) + turn_factor, snd (velocity b))\<rparr> else b);
          b2 = (if fst (position b1) > WIDTH - margin
                then b1\<lparr>velocity := (fst (velocity b1) - turn_factor, snd (velocity b1))\<rparr> else b1);
          b3 = (if snd (position b2) < margin
                then b2\<lparr>velocity := (fst (velocity b2), snd (velocity b2) + turn_factor)\<rparr> else b2);
          b4 = (if snd (position b3) > HEIGHT - margin
                then b3\<lparr>velocity := (fst (velocity b3), snd (velocity b3) - turn_factor)\<rparr> else b3)
      in b4)"

text \<open>The velocity after the speed limit of \<open>update\<close>, before it is added to the position.\<close>

definition limit_speed :: "params \<Rightarrow> vec \<Rightarrow> vec option" where
  "limit_speed p v =
     (let speed = vnorm v in
      if speed > max_speed p
      then (case vdiv v speed of None \<Rightarrow> None | Some u \<Rightarrow> Some (vscale u (max_speed p)))
      else Some v)"

definition update :: "params \<Rightarrow> boid \<Rightarrow> boid option" where
  "update p b =
     (case limit_speed p (vadd (velocity b) (acceleration b)) of
        None \<Rightarrow> None
      | Some v \<Rightarrow>
          Some (handle_boundaries p
            (b\<lparr>velocity := v, position := vadd (position b) v, acceleration := (0, 0)\<rparr>)))"

subsection \<open>Boid.flock\<close>

text \<open>The local variables of \<open>flock\<close> that the loop over \<open>boids\<close> accumulates,
  with the neighbour list that the loop appends to.\<close>

record scan =
  seen :: "ref list"
  separation :: vec
  alignment :: vec
  cohesion :: vec
  total_separation :: nat
  total_alignment :: nat
  total_cohesion :: nat

definition scan0 :: scan where
  "scan0 = \<lparr> seen = [], separation = (0, 0), alignment = (0, 0), cohesion = (0, 0),
     total_separation = 0, total_alignment = 0, total_cohesion = 0 \<rparr>"

text \<open>One iteration of the loop body for an \<open>other\<close> that is not \<open>self\<close>.\<close>

definition visit :: "params \<Rightarrow> boid \<Rightarrow> ref \<Rightarrow> boid \<Rightarrow> scan \<Rightarrow> scan option" where
  "visit p self r other acc =
     (let distance = vnorm (vsub (position self) (position other)) in
      if distance < perception_radius p then
        (case (if distance < separation_radius p
               then (case vdiv (vsub (position self) (position other))
                                (distance * distance + 0.00001) of
                       None \<Rightarrow> None
                     | Some diff \<Rightarrow>
                         Some (acc\<lparr>seen := seen acc @ [r],
                                   separation := vadd (separation acc) diff,
                                   total_separation := total_separation acc + 1\<rparr>))
               else Some (acc\<lparr>seen := seen acc @ [r]\<rparr>)) of
           None \<Rightarrow> None
         | Some acc1 \<Rightarrow>
             Some (acc1\<lparr>alignment := vadd (alignment acc1) (velocity other),
                        total_alignment := total_alignment acc1 + 1,
                        cohesion := vadd (cohesion acc1) (position other),
                        total_cohesion := total_cohesion acc1 + 1\<rparr>))
      else Some acc)"

fun flock_loop :: "params \<Rightarrow> store \<Rightarrow> ref \<Rightarrow> ref list \<Rightarrow> scan \<Rightarrow> scan option" where
  "flock_loop p s self [] acc = Some acc"
| "flock_loop p s self (other # rest) acc =
     (if other = self then flock_loop p s self rest acc
      else (case visit p (s self) other (s other) acc of
              None \<Rightarrow> None
            | Some acc' \<Rightarrow> flock_loop p s self rest acc'))"

text \<open>The three rules. Each \<open>_force\<close> is the vector just after \<open>self.limit(_, 0.2)\<close>,
  before the weight is multiplied in.\<close>

definition separation_force :: "params \<Rightarrow> boid \<Rightarrow> scan \<Rightarrow> vec option" where
  "separation_force p self acc =
     (case vdiv (separation acc) (real (total_separation acc)) of
        None \<Rightarrow> None
      | Some avg \<Rightarrow>
          (case normalize_vec avg of
             None \<Rightarrow> None
           | Some n \<Rightarrow> limit (vsub (vscale n (max_speed p)) (velocity self)) 0.2))"

definition alignment_force :: "params \<Rightarrow> boid \<Rightarrow> scan \<Rightarrow> vec option" where
  "alignment_force p self acc =
     (case vdiv (alignment acc) (real (total_alignment acc)) of
        None \<Rightarrow> None
      | Some avg \<Rightarrow>
          (case normalize_vec avg of
             None \<Rightarrow> None
           | Some n \<Rightarrow> limit (vsub (vscale n (max_speed p)) (velocity self)) 0.2))"

definition cohesion_force :: "params \<Rightarrow> boid \<Rightarrow> scan \<Rightarrow> vec option" where
  "cohesion_force p self acc =
     (case vdiv (cohesion acc) (real (total_cohesion acc)) of
        None \<Rightarrow> None
      | Some avg \<Rightarrow>
          (case normalize_vec (vsub avg (position self)) of
             None \<Rightarrow> None
           | Some n \<Rightarrow> limit (vsub (vscale n (max_speed p)) (velocity self)) 0.2))"

definition apply_separation :: "params \<Rightarrow> scan \<Rightarrow> boid \<Rightarrow> boid option" where
  "apply_separation p acc self =
     (if total_separation acc > 0
      then (case separation_force p self acc of
              None \<Rightarrow> None
            | Some f \<Rightarrow> Some (apply_force self (vscale f (separation_weight p))))
      else Some self)"

definition apply_alignment :: "params \<Rightarrow> scan \<Rightarrow> boid \<Rightarrow> boid option" where
  "apply_alignment p acc self =
     (if total_alignment acc > 0
      then (case alignment_force p self acc of
              None \<Rightarrow> None
            | Some f \<Rightarrow> Some (apply_force self (vscale f (alignment_weight p))))
      else Some self)"

definition apply_cohesion :: "params \<Rightarrow> scan \<Rightarrow> boid \<Rightarrow> boid option" where
  "apply_cohesion p acc self =
     (if total_cohesion acc > 0
      then (case cohesion_force p self acc of
              None \<Rightarrow> None
            | Some f \<Rightarrow> Some (apply_force self (vscale f (cohesion_weight p))))
      else Some self)"

text \<open>\<open>self.flock(boids)\<close>: the boid object \<open>self\<close> after the call. No other object
  of the store is written.\<close>

definition flock :: "params \<Rightarrow> store \<Rightarrow> ref list \<Rightarrow> ref \<Rightarrow> boid option" where
  "flock p s boids self =
     (case flock_loop p s self boids scan0 of
        None \<Rightarrow> None
      | Some acc \<Rightarrow>
          (case apply_separation p acc ((s self)\<lparr>neighbors := seen acc\<rparr>) of
             None \<Rightarrow> None
           | Some b1 \<Rightarrow>
               (case apply_alignment p acc b1 of
                  None \<Rightarrow> None
                | Some b2 \<Rightarrow> apply_cohesion p acc b2)))"

text \<open>The store after \<open>self.flock(boids)\<close>.\<close>

definition flock_store :: "params \<Rightarrow> store \<Rightarrow> ref list \<Rightarrow> ref \<Rightarrow> store option" where
  "flock_store p s boids self =
     (case flock p s boids self of None \<Rightarrow> None | Some b \<Rightarrow> Some (s(self := b)))"

subsection \<open>The frame loop of main\<close>

text \<open>\<open>for boid in boids: boid.flock(boids); boid.update()\<close>. Drawing reads the store
  and writes nothing, so it is left out.\<close>

fun frame_loop :: "params \<Rightarrow> ref list \<Rightarrow> ref list \<Rightarrow> store \<Rightarrow> store option" where
  "frame_loop p boids [] s = Some s"
| "frame_loop p boids (r # rest) s =
     (case flock_store p s boids r of
        None \<Rightarrow> None
      | Some s1 \<Rightarrow>
          (case update p (s1 r) of
             None \<Rightarrow> None
           | Some b \<Rightarrow> frame_loop p boids rest (s1(r := b))))"

definition frame :: "params \<Rightarrow> ref list \<Rightarrow> store \<Rightarrow> store option" where
  "frame p boids s = frame_loop p boids boids s"

subsection \<open>IEEE 754 double arithmetic\<close>

text \<open>
  A finite double is modelled by the real number it denotes. \<open>rne\<close> rounds a real to the
  nearest integer, ties to the even one. \<open>expo x\<close> is the exponent \<open>e\<close> of the binade
  \<open>2^e \<le> |x| < 2^(e+1)\<close>, searched downwards from 1023 and never below -1022, the
  exponent of the subnormal doubles. \<open>fl x\<close> is \<open>x\<close> rounded to 53 significant bits in
  that binade (round to nearest, ties to even), or \<open>None\<close> when the rounded value
  has magnitude \<open>2^1024\<close> or more (overflow). Addition, subtraction, multiplication,
  division and square root of doubles are the exact operation followed by \<open>fl\<close>.
\<close>

definition rne :: "real \<Rightarrow> int" where
  "rne z = (let f = \<lfloor>z\<rfloor>; d = z - of_int f in
            if d < 1 / 2 then f else if 1 / 2 < d then f + 1
            else if even f then f else f + 1)"

fun expo_below :: "nat \<Rightarrow> real \<Rightarrow> int" where
  "expo_below 0 a = - 1022"
| "expo_below (Suc n) a =
     (if 2 powi (int n - 1021) \<le> a then int n - 1021 else expo_below n a)"

definition expo :: "real \<Rightarrow> int" where
  "expo x = expo_below 2045 \<bar>x\<bar>"

definition fl :: "real \<Rightarrow> real option" where
  "fl x = (let q = 2 powi (expo x - 52); y = of_int (rne (x / q)) * q in
           if 2 powi 1024 \<le> \<bar>y\<bar> then None else Some y)"

subsection \<open>Boid.normalize, Boid.limit and the three rules on doubles\<close>

text \<open>
  \<open>np.linalg.norm\<close> of a one-dimensional array is \<open>sqrt(x.dot(x))\<close>. The dot product of
  two elements is \<open>x0*x0 + x1*x1\<close>; whether the second product is rounded before the
  addition or fused into it depends on the BLAS routine and the processor, so
  \<open>fused\<close> is a parameter and every property below holds for both values.
  Array by scalar division and multiplication and array subtraction round each
  component. \<open>double_0_2\<close> is the double that the literal \<open>0.2\<close> denotes.
\<close>

definition dot_fl :: "bool \<Rightarrow> vec \<Rightarrow> real option" where
  "dot_fl fused a =
     (case fl (fst a * fst a) of
        None \<Rightarrow> None
      | Some p0 \<Rightarrow>
          (case (if fused then Some (snd a * snd a) else fl (snd a * snd a)) of
             None \<Rightarrow> None
           | Some p1 \<Rightarrow> fl (p0 + p1)))"

definition norm_fl :: "bool \<Rightarrow> vec \<Rightarrow> real option" where
  "norm_fl fused a = (case dot_fl fused a of None \<Rightarrow> None | Some d \<Rightarrow> fl (sqrt d))"

definition vdiv_fl :: "vec \<Rightarrow> real \<Rightarrow> vec option" where
  "vdiv_fl a d =
     (if d = 0 then None
      else (case fl (fst a / d) of
              None \<Rightarrow> None
            | Some x \<Rightarrow> (case fl (snd a / d) of None \<Rightarrow> None | Some y \<Rightarrow> Some (x, y))))"

definition vscale_fl :: "vec \<Rightarrow> real \<Rightarrow> vec option" where
  "vscale_fl a k =
     (case fl (fst a * k) of
        None \<Rightarrow> None
      | Some x \<Rightarrow> (case fl (snd a * k) of None \<Rightarrow> None | Some y \<Rightarrow> Some (x, y)))"

definition vsub_fl :: "vec \<Rightarrow> vec \<Rightarrow> vec option" where
  "vsub_fl a b =
     (case fl (fst a - fst b) of
        None \<Rightarrow> None
      | Some x \<Rightarrow> (case fl (snd a - snd b) of None \<Rightarrow> None | Some y \<Rightarrow> Some (x, y)))"

definition normalize_fl :: "bool \<Rightarrow> vec \<Rightarrow> vec option" where
  "normalize_fl fused vector =
     (case norm_fl fused vector of
        None \<Rightarrow> None
      | Some nrm \<Rightarrow> if nrm > 0 then vdiv_fl vector nrm else Some vector)"

definition limit_fl :: "bool \<Rightarrow> vec \<Rightarrow> real \<Rightarrow> vec option" where
  "limit_fl fused vector max_value =
     (case norm_fl fused vector of
        None \<Rightarrow> None
      | Some nrm \<Rightarrow>
          if nrm > max_value
          then (case vdiv_fl vector nrm of None \<Rightarrow> None | Some u \<Rightarrow> vscale_fl u max_value)
          else Some vector)"

definition double_0_2 :: real where
  "double_0_2 = 3602879701896397 / 2 ^ 54"

definition separation_force_fl :: "bool \<Rightarrow> params \<Rightarrow> boid \<Rightarrow> scan \<Rightarrow> vec option" where
  "separation_force_fl fused p self acc =
     (case vdiv_fl (separation acc) (real (total_separation acc)) of
        None \<Rightarrow> None
      | Some avg \<Rightarrow>
          (case normalize_fl fused avg of
             None \<Rightarrow> None
           | Some n \<Rightarrow>
               (case vscale_fl n (max_speed p) of
                  None \<Rightarrow> None
                | Some desired \<Rightarrow>
                    (case vsub_fl desired (velocity self) of
                       None \<Rightarrow> None
                     | Some steer \<Rightarrow> limit_fl fused steer double_0_2))))"

definition alignment_force_fl :: "bool \<Rightarrow> params \<Rightarrow> boid \<Rightarrow> scan \<Rightarrow> vec option" where
  "alignment_force_fl fused p self acc =
     (case vdiv_fl (alignment acc) (real (total_alignment acc)) of
        None \<Rightarrow> None
      | Some avg \<Rightarrow>
          (case normalize_fl fused avg of
             None \<Rightarrow> None
           | Some n \<Rightarrow>
               (case vscale_fl n (max_speed p) of
                  None \<Rightarrow> None
                | Some desired \<Rightarrow>
                    (case vsub_fl desired (velocity self) of
                       None \<Rightarrow> None
                     | Some steer \<Rightarrow> limit_fl fused steer double_0_2))))"

definition cohesion_force_fl :: "bool \<Rightarrow> params \<Rightarrow> boid \<Rightarrow> scan \<Rightarrow> vec option" where
  "cohesion_force_fl fused p self acc =
     (case vdiv_fl (cohesion acc) (real (total_cohesion acc)) of
        None \<Rightarrow> None
      | Some avg \<Rightarrow>
          (case vsub_fl avg (position self) of
             None \<Rightarrow> None
           | Some towards \<Rightarrow>
               (case normalize_fl fused towards of
                  None \<Rightarrow> None
                | Some n \<Rightarrow>
                    (case vscale_fl n (max_speed p) of
                       None \<Rightarrow> None
                     | Some desired \<Rightarrow>
                         (case vsub_fl desired (velocity self) of
                            None \<Rightarrow> None
                          | Some steer \<Rightarrow> limit_fl fused steer double_0_2)))))"

subsection \<open>Quantities named in the properties\<close>

text \<open>The local variable \<open>distance\<close> of the loop of \<open>flock\<close>, as a function of the two
  references, and the vector that one boid within both radii adds to \<open>separation\<close>.\<close>

definition distance :: "store \<Rightarrow> ref \<Rightarrow> ref \<Rightarrow> real" where
  "distance s self other = vnorm (vsub (position (s self)) (position (s other)))"

definition separation_term :: "store \<Rightarrow> ref \<Rightarrow> ref \<Rightarrow> vec" where
  "separation_term s self other =
     (fst (vsub (position (s self)) (position (s other)))
        / (distance s self other * distance s self other + 0.00001),
      snd (vsub (position (s self)) (position (s other)))
        / (distance s self other * distance s self other + 0.00001))"

text \<open>The boid at a reference after a step that may fail.\<close>

definition look :: "store option \<Rightarrow> ref \<Rightarrow> boid option" where
  "look so r = (case so of None \<Rightarrow> None | Some s \<Rightarrow> Some (s r))"

text \<open>A double is safe for \<open>k\<close> when it is zero or its magnitude lies between \<open>2^-k\<close>
  and \<open>2^k\<close>, so that the squares and quotients formed from it neither underflow nor
  overflow.\<close>

definition safe :: "nat \<Rightarrow> real \<Rightarrow> bool" where
  "safe k c = (c = 0 \<or> (1 / 2 ^ k \<le> \<bar>c\<bar> \<and> \<bar>c\<bar> \<le> 2 ^ k))"

subsection \<open>Concrete boids used as test inputs\<close>

definition boid_a :: boid where
  "boid_a = \<lparr> position = (100, 100), velocity = (4, 0), acceleration = (0, 0),
     size_px = 6, neighbors = [] \<rparr>"

definition boid_b_near :: boid where
  "boid_b_near = \<lparr> position = (110, 100), velocity = (- 4, 0), acceleration = (0, 0),
     size_px = 6, neighbors = [] \<rparr>"

definition boid_b_far :: boid where
  "boid_b_far = \<lparr> position = (135, 100), velocity = (- 4, 0), acceleration = (0, 0),
     size_px = 6, neighbors = [] \<rparr>"

definition near_pair :: store where
  "near_pair = (\<lambda>r. if r = 0 then boid_a else boid_b_near)"

definition far_pair :: store where
  "far_pair = (\<lambda>r. if r = 0 then boid_a else boid_b_far)"

definition same_place :: store where
  "same_place = (\<lambda>r. boid_a)"

definition wide_separation :: params where
  "wide_separation = default_params\<lparr>separation_radius := 100\<rparr>"



definition boid_c :: boid where
  "boid_c = \<lparr> position = (100, 100), velocity = (5 / 2, 2), acceleration = (0, 0),
     size_px = 6, neighbors = [] \<rparr>"

text \<open>Two boids at the same place with the same velocity, and what the loop of
  \<open>flock\<close> has accumulated for the first of them.\<close>

definition same_place_c :: store where
  "same_place_c = (\<lambda>r. boid_c)"

definition scan_same :: scan where
  "scan_same = \<lparr> seen = [1], separation = (0, 0), alignment = (5 / 2, 2),
     cohesion = (100, 100), total_separation = 1, total_alignment = 1, total_cohesion = 1 \<rparr>"

section \<open>Vector lemmas\<close>

lemma vnorm_nonneg: "0 \<le> vnorm a"
  by (simp add: vnorm_def)

lemma vnorm_eq_0: "vnorm a = 0 \<longleftrightarrow> a = (0, 0)"
  by (cases a) (simp add: vnorm_def)

lemma vnorm_pos: "0 < vnorm a \<longleftrightarrow> a \<noteq> (0, 0)"
  using vnorm_nonneg[of a] vnorm_eq_0[of a] by linarith

lemma vnorm_vscale: "vnorm (vscale a k) = \<bar>k\<bar> * vnorm a"
proof -
  have "fst a * k * (fst a * k) + snd a * k * (snd a * k) = k\<^sup>2 * (fst a * fst a + snd a * snd a)"
    by (simp add: power2_eq_square algebra_simps)
  then show ?thesis
    by (simp add: vnorm_def vscale_def real_sqrt_mult)
qed

lemma vnorm_quot: "vnorm (fst a / d, snd a / d) = vnorm a / \<bar>d\<bar>"
proof -
  have "(fst a / d, snd a / d) = vscale a (1 / d)"
    by (simp add: vscale_def)
  then show ?thesis
    by (simp add: vnorm_vscale)
qed

lemma vnorm_unit: "a \<noteq> (0, 0) \<Longrightarrow> vnorm (fst a / vnorm a, snd a / vnorm a) = 1"
  using vnorm_pos[of a] by (simp add: vnorm_quot)

lemma normalize_vec_eq:
  "normalize_vec a = Some (if a = (0, 0) then a else (fst a / vnorm a, snd a / vnorm a))"
  using vnorm_pos[of a] by (auto simp add: normalize_vec_def vdiv_def Let_def)

lemma limit_eq:
  "0 \<le> m \<Longrightarrow> limit a m =
     Some (if vnorm a > m then vscale (fst a / vnorm a, snd a / vnorm a) m else a)"
  by (auto simp add: limit_def vdiv_def Let_def)

lemma vnorm_limit:
  assumes "0 \<le> m" and "limit a m = Some u"
  shows "vnorm u \<le> m"
proof (cases "vnorm a > m")
  case True
  then have "a \<noteq> (0, 0)" using assms(1) vnorm_eq_0[of a] by auto
  then show ?thesis
    using assms True by (auto simp add: limit_eq vnorm_vscale vnorm_unit)
next
  case False
  then show ?thesis using assms by (simp add: limit_eq)
qed

lemma vscale_quot: "vscale (fst a / d, snd a / d) m = vscale a (m / d)"
  by (simp add: vscale_def)

lemma vnorm_x_axis: "vnorm (x, 0) = \<bar>x\<bar>"
  by (simp add: vnorm_def)


lemma limit_speed_limit: "limit_speed p v = limit v (max_speed p)"
  by (simp add: limit_speed_def limit_def)



section \<open>Lemmas on the loop of flock, the rules and the frame loop\<close>

lemma separation_denominator_pos: "0 < d * d + (0.00001::real)"
  by (simp add: add_nonneg_pos)

lemma vdiv_separation:
  "vdiv a (d * d + 0.00001) = Some (fst a / (d * d + 0.00001), snd a / (d * d + 0.00001))"
proof -
  have "d * d + (0.00001::real) \<noteq> 0"
    using separation_denominator_pos[of d] by linarith
  then show ?thesis by (simp add: vdiv_def)
qed

lemma visit_eq:
  "visit p self r other acc =
     Some (let distance = vnorm (vsub (position self) (position other)) in
           if distance < perception_radius p then
             (if distance < separation_radius p
              then acc\<lparr>seen := seen acc @ [r],
                       separation := vadd (separation acc)
                          (fst (vsub (position self) (position other)) / (distance * distance + 0.00001),
                           snd (vsub (position self) (position other)) / (distance * distance + 0.00001)),
                       total_separation := total_separation acc + 1,
                       alignment := vadd (alignment acc) (velocity other),
                       total_alignment := total_alignment acc + 1,
                       cohesion := vadd (cohesion acc) (position other),
                       total_cohesion := total_cohesion acc + 1\<rparr>
              else acc\<lparr>seen := seen acc @ [r],
                       alignment := vadd (alignment acc) (velocity other),
                       total_alignment := total_alignment acc + 1,
                       cohesion := vadd (cohesion acc) (position other),
                       total_cohesion := total_cohesion acc + 1\<rparr>)
           else acc)"
  unfolding visit_def Let_def vdiv_separation by simp

lemma flock_loop_total: "\<exists>acc'. flock_loop p s self boids acc = Some acc'"
  by (induction boids arbitrary: acc) (simp_all add: visit_eq)

lemma flock_loop_seen:
  "flock_loop p s self boids acc = Some acc' \<Longrightarrow>
   seen acc' = seen acc @ filter (\<lambda>r. r \<noteq> self \<and> distance s self r < perception_radius p) boids"
proof (induction boids arbitrary: acc)
  case Nil
  then show ?case by simp
next
  case (Cons other rest)
  show ?case
  proof (cases "other = self")
    case True
    then show ?thesis using Cons by simp
  next
    case False
    obtain acc1 where v: "visit p (s self) other (s other) acc = Some acc1"
      by (simp add: visit_eq)
    have "flock_loop p s self rest acc1 = Some acc'"
      using Cons.prems False v by simp
    then have "seen acc' = seen acc1 @
        filter (\<lambda>r. r \<noteq> self \<and> distance s self r < perception_radius p) rest"
      by (rule Cons.IH)
    moreover have "seen acc1 = seen acc @
        (if distance s self other < perception_radius p then [other] else [])"
      using v by (auto simp add: visit_eq distance_def Let_def)
    ultimately show ?thesis using False by simp
  qed
qed

lemma flock_loop_total_separation:
  "flock_loop p s self boids acc = Some acc' \<Longrightarrow>
   total_separation acc' = total_separation acc +
     length (filter (\<lambda>r. r \<noteq> self \<and> distance s self r < perception_radius p
                          \<and> distance s self r < separation_radius p) boids)"
proof (induction boids arbitrary: acc)
  case Nil
  then show ?case by simp
next
  case (Cons other rest)
  show ?case
  proof (cases "other = self")
    case True
    then show ?thesis using Cons by simp
  next
    case False
    obtain acc1 where v: "visit p (s self) other (s other) acc = Some acc1"
      by (simp add: visit_eq)
    have "flock_loop p s self rest acc1 = Some acc'"
      using Cons.prems False v by simp
    then have "total_separation acc' = total_separation acc1 +
        length (filter (\<lambda>r. r \<noteq> self \<and> distance s self r < perception_radius p
                          \<and> distance s self r < separation_radius p) rest)"
      by (rule Cons.IH)
    moreover have "total_separation acc1 = total_separation acc +
        (if distance s self other < perception_radius p
            \<and> distance s self other < separation_radius p then 1 else 0)"
      using v by (auto simp add: visit_eq distance_def Let_def)
    ultimately show ?thesis using False by simp
  qed
qed

lemma flock_loop_separation:
  "flock_loop p s self boids acc = Some acc' \<Longrightarrow>
   separation acc' = foldl vadd (separation acc)
     (map (separation_term s self)
        (filter (\<lambda>r. r \<noteq> self \<and> distance s self r < perception_radius p
                          \<and> distance s self r < separation_radius p) boids))"
proof (induction boids arbitrary: acc)
  case Nil
  then show ?case by simp
next
  case (Cons other rest)
  show ?case
  proof (cases "other = self")
    case True
    then show ?thesis using Cons by simp
  next
    case False
    obtain acc1 where v: "visit p (s self) other (s other) acc = Some acc1"
      by (simp add: visit_eq)
    have "flock_loop p s self rest acc1 = Some acc'"
      using Cons.prems False v by simp
    then have "separation acc' = foldl vadd (separation acc1)
       (map (separation_term s self)
        (filter (\<lambda>r. r \<noteq> self \<and> distance s self r < perception_radius p
                          \<and> distance s self r < separation_radius p) rest))"
      by (rule Cons.IH)
    moreover have "separation acc1 =
        (if distance s self other < perception_radius p
            \<and> distance s self other < separation_radius p
         then vadd (separation acc) (separation_term s self other) else separation acc)"
      using v by (auto simp add: visit_eq distance_def separation_term_def Let_def)
    ultimately show ?thesis using False by simp
  qed
qed

lemma separation_force_total:
  "0 < total_separation acc \<Longrightarrow> \<exists>f. separation_force p self acc = Some f \<and> vnorm f \<le> 0.2"
proof -
  assume "0 < total_separation acc"
  then obtain avg where a: "vdiv (separation acc) (real (total_separation acc)) = Some avg"
    by (simp add: vdiv_def)
  obtain n where n: "normalize_vec avg = Some n"
    by (simp add: normalize_vec_eq)
  obtain f where f: "limit (vsub (vscale n (max_speed p)) (velocity self)) 0.2 = Some f"
    by (simp add: limit_eq)
  have "vnorm f \<le> 0.2"
    using vnorm_limit[OF _ f] by simp
  moreover have "separation_force p self acc = Some f"
    using a n f by (simp add: separation_force_def)
  ultimately show ?thesis by blast
qed

lemma alignment_force_total:
  "0 < total_alignment acc \<Longrightarrow> \<exists>f. alignment_force p self acc = Some f \<and> vnorm f \<le> 0.2"
proof -
  assume "0 < total_alignment acc"
  then obtain avg where a: "vdiv (alignment acc) (real (total_alignment acc)) = Some avg"
    by (simp add: vdiv_def)
  obtain n where n: "normalize_vec avg = Some n"
    by (simp add: normalize_vec_eq)
  obtain f where f: "limit (vsub (vscale n (max_speed p)) (velocity self)) 0.2 = Some f"
    by (simp add: limit_eq)
  have "vnorm f \<le> 0.2"
    using vnorm_limit[OF _ f] by simp
  moreover have "alignment_force p self acc = Some f"
    using a n f by (simp add: alignment_force_def)
  ultimately show ?thesis by blast
qed

lemma cohesion_force_total:
  "0 < total_cohesion acc \<Longrightarrow> \<exists>f. cohesion_force p self acc = Some f \<and> vnorm f \<le> 0.2"
proof -
  assume "0 < total_cohesion acc"
  then obtain avg where a: "vdiv (cohesion acc) (real (total_cohesion acc)) = Some avg"
    by (simp add: vdiv_def)
  obtain n where n: "normalize_vec (vsub avg (position self)) = Some n"
    by (simp add: normalize_vec_eq)
  obtain f where f: "limit (vsub (vscale n (max_speed p)) (velocity self)) 0.2 = Some f"
    by (simp add: limit_eq)
  have "vnorm f \<le> 0.2"
    using vnorm_limit[OF _ f] by simp
  moreover have "cohesion_force p self acc = Some f"
    using a n f by (simp add: cohesion_force_def)
  ultimately show ?thesis by blast
qed

lemma apply_separation_frame:
  "\<exists>b'. apply_separation p acc b = Some b' \<and> position b' = position b \<and>
     velocity b' = velocity b \<and> neighbors b' = neighbors b \<and> size_px b' = size_px b"
  using separation_force_total[of acc p b]
  by (auto simp add: apply_separation_def apply_force_def)

lemma apply_alignment_frame:
  "\<exists>b'. apply_alignment p acc b = Some b' \<and> position b' = position b \<and>
     velocity b' = velocity b \<and> neighbors b' = neighbors b \<and> size_px b' = size_px b"
  using alignment_force_total[of acc p b]
  by (auto simp add: apply_alignment_def apply_force_def)

lemma apply_cohesion_frame:
  "\<exists>b'. apply_cohesion p acc b = Some b' \<and> position b' = position b \<and>
     velocity b' = velocity b \<and> neighbors b' = neighbors b \<and> size_px b' = size_px b"
  using cohesion_force_total[of acc p b]
  by (auto simp add: apply_cohesion_def apply_force_def)

lemma flock_frame:
  "\<exists>acc b. flock_loop p s self boids scan0 = Some acc \<and> flock p s boids self = Some b \<and>
     position b = position (s self) \<and> velocity b = velocity (s self) \<and>
     size_px b = size_px (s self) \<and> neighbors b = seen acc"
proof -
  obtain acc where acc: "flock_loop p s self boids scan0 = Some acc"
    using flock_loop_total by blast
  let ?b0 = "(s self)\<lparr>neighbors := seen acc\<rparr>"
  obtain b1 where b1: "apply_separation p acc ?b0 = Some b1" "position b1 = position ?b0"
      "velocity b1 = velocity ?b0" "neighbors b1 = neighbors ?b0" "size_px b1 = size_px ?b0"
    using apply_separation_frame[of p acc ?b0] by blast
  obtain b2 where b2: "apply_alignment p acc b1 = Some b2" "position b2 = position b1"
      "velocity b2 = velocity b1" "neighbors b2 = neighbors b1" "size_px b2 = size_px b1"
    using apply_alignment_frame[of p acc b1] by blast
  obtain b3 where b3: "apply_cohesion p acc b2 = Some b3" "position b3 = position b2"
      "velocity b3 = velocity b2" "neighbors b3 = neighbors b2" "size_px b3 = size_px b2"
    using apply_cohesion_frame[of p acc b2] by blast
  have "flock p s boids self = Some b3"
    using acc b1(1) b2(1) b3(1) by (simp add: flock_def)
  then show ?thesis using acc b1 b2 b3 by simp
qed

lemmas eval_defs = flock_def flock_store_def visit_def scan0_def
  apply_separation_def apply_alignment_def apply_cohesion_def
  separation_force_def alignment_force_def cohesion_force_def
  normalize_vec_def limit_def vdiv_def vscale_def vadd_def vsub_def vnorm_x_axis
  apply_force_def default_params_def Let_def
  update_def limit_speed_def handle_boundaries_def WIDTH_def HEIGHT_def
  boid_a_def boid_b_near_def boid_b_far_def near_pair_def far_pair_def same_place_def

lemma update_total: "0 \<le> max_speed p \<Longrightarrow> \<exists>b'. update p b = Some b'"
  by (simp add: update_def limit_speed_limit limit_eq)

lemma flock_total: "\<exists>b. flock p s boids self = Some b"
  using flock_frame[of p s self boids] by blast

lemma frame_loop_Cons:
  "frame_loop p boids (r # rest) s =
     (case flock p s boids r of
        None \<Rightarrow> None
      | Some b \<Rightarrow>
          (case update p b of
             None \<Rightarrow> None
           | Some b' \<Rightarrow> frame_loop p boids rest (s(r := b'))))"
  by (simp add: flock_store_def split: option.splits)

lemma frame_loop_total:
  "0 \<le> max_speed p \<Longrightarrow> \<exists>s'. frame_loop p boids todo s = Some s'"
proof (induction todo arbitrary: s)
  case Nil
  then show ?case by simp
next
  case (Cons r rest)
  obtain b where b: "flock p s boids r = Some b"
    using flock_total by blast
  obtain b' where b': "update p b = Some b'"
    using update_total[OF Cons.prems] by blast
  show ?case
    using Cons.IH[OF Cons.prems, of "s(r := b')"] b b' by (simp only: frame_loop_Cons option.case)
qed

lemma frame_loop_other:
  "frame_loop p boids todo s = Some s' \<Longrightarrow> q \<notin> set todo \<Longrightarrow> s' q = s q"
proof (induction todo arbitrary: s)
  case Nil
  then show ?case by simp
next
  case (Cons r rest)
  from Cons.prems(1) obtain b b' where
    b: "flock p s boids r = Some b" and b': "update p b = Some b'"
    and rest: "frame_loop p boids rest (s(r := b')) = Some s'"
    by (auto simp only: frame_loop_Cons split: option.splits)
  have "s' q = (s(r := b')) q"
    using Cons.IH[OF rest] Cons.prems(2) by simp
  then show ?case using Cons.prems(2) by simp
qed

lemma frame_loop_sequential:
  "frame_loop p boids todo s = Some s' \<Longrightarrow> distinct todo \<Longrightarrow> k < length todo \<Longrightarrow>
   \<exists>b. flock p (\<lambda>q. if q \<in> set (take k todo) then s' q else s q) boids (todo ! k) = Some b
        \<and> update p b = Some (s' (todo ! k))"
proof (induction todo arbitrary: s k)
  case Nil
  then show ?case by simp
next
  case (Cons r rest)
  from Cons.prems(1) obtain b b' where
    b: "flock p s boids r = Some b" and b': "update p b = Some b'"
    and rest: "frame_loop p boids rest (s(r := b')) = Some s'"
    by (auto simp only: frame_loop_Cons split: option.splits)
  have r_notin: "r \<notin> set rest" and d: "distinct rest"
    using Cons.prems(2) by simp_all
  have r_final: "s' r = b'"
    using frame_loop_other[OF rest r_notin] by simp
  show ?case
  proof (cases k)
    case 0
    then show ?thesis using b b' r_final by simp
  next
    case (Suc j)
    then have j: "j < length rest" using Cons.prems(3) by simp
    obtain c where c: "flock p (\<lambda>q. if q \<in> set (take j rest) then s' q else (s(r := b')) q)
          boids (rest ! j) = Some c" and c': "update p c = Some (s' (rest ! j))"
      using Cons.IH[OF rest d j] by blast
    have "(\<lambda>q. if q \<in> set (take j rest) then s' q else (s(r := b')) q) =
          (\<lambda>q. if q \<in> set (take k (r # rest)) then s' q else s q)"
      using Suc r_final by auto
    then show ?thesis using c c' Suc by simp
  qed
qed

lemma flock_loop_same: "flock_loop default_params same_place_c 0 [0, 1] scan0 = Some scan_same"
  by (simp add: eval_defs scan_same_def same_place_c_def boid_c_def vnorm_def)

section \<open>The exact-arithmetic reading of normalize, limit and the rules\<close>

text \<open>
  In exact arithmetic \<open>normalize\<close> of a vector that is not zero has length exactly 1,
  \<open>limit\<close> returns a vector of length exactly \<open>m\<close> when it rescales and is idempotent,
  and each rule's force has length at most \<open>1/5\<close>. These are the statements that the
  doubles of the source satisfy only up to rounding; the properties further below give
  the rounding error.
\<close>

lemma normalize_exact:
  "normalize_vec (0, 0) = Some (0, 0) \<and>
   (a \<noteq> (0, 0) \<longrightarrow>
      (\<exists>u k. normalize_vec a = Some u \<and> vnorm u = 1 \<and> 0 < k \<and> u = vscale a k))"
proof (intro conjI impI)
  show "normalize_vec (0, 0) = Some (0, 0)"
    by (simp add: normalize_vec_eq)
next
  assume nz: "a \<noteq> (0, 0)"
  let ?u = "(fst a / vnorm a, snd a / vnorm a)"
  have "normalize_vec a = Some ?u" using nz by (simp add: normalize_vec_eq)
  moreover have "vnorm ?u = 1" using nz by (rule vnorm_unit)
  moreover have "0 < 1 / vnorm a" using nz by (simp add: vnorm_pos)
  moreover have "?u = vscale a (1 / vnorm a)" by (simp add: vscale_def)
  ultimately show "\<exists>u k. normalize_vec a = Some u \<and> vnorm u = 1 \<and> 0 < k \<and> u = vscale a k"
    by blast
qed

lemma limit_exact:
  "0 < m \<Longrightarrow>
     (vnorm a \<le> m \<longrightarrow> limit a m = Some a) \<and>
     (vnorm a > m \<longrightarrow>
        (\<exists>u k. limit a m = Some u \<and> vnorm u = m \<and> 0 < k \<and> u = vscale a k)) \<and>
     (\<exists>u. limit a m = Some u \<and> vnorm u \<le> vnorm a \<and> limit u m = limit a m)"
proof (intro conjI impI)
  assume m: "0 < m" and le: "vnorm a \<le> m"
  show "limit a m = Some a" using m le by (simp add: limit_eq)
next
  assume m: "0 < m" and gt: "vnorm a > m"
  let ?u = "vscale (fst a / vnorm a, snd a / vnorm a) m"
  have nz: "a \<noteq> (0, 0)" using m gt vnorm_eq_0[of a] by auto
  have "limit a m = Some ?u" using m gt by (simp add: limit_eq)
  moreover have "vnorm ?u = m" using m nz by (simp add: vnorm_vscale vnorm_unit)
  moreover have "0 < m / vnorm a" using m gt by simp
  moreover have "?u = vscale a (m / vnorm a)" by (rule vscale_quot)
  ultimately show "\<exists>u k. limit a m = Some u \<and> vnorm u = m \<and> 0 < k \<and> u = vscale a k"
    by blast
next
  assume m: "0 < m"
  show "\<exists>u. limit a m = Some u \<and> vnorm u \<le> vnorm a \<and> limit u m = limit a m"
  proof (cases "vnorm a > m")
    case True
    let ?u = "vscale (fst a / vnorm a, snd a / vnorm a) m"
    have nz: "a \<noteq> (0, 0)" using m True vnorm_eq_0[of a] by auto
    have 1: "limit a m = Some ?u" using m True by (simp add: limit_eq)
    have 2: "vnorm ?u = m" using m nz by (simp add: vnorm_vscale vnorm_unit)
    have 3: "limit ?u m = Some ?u" using m 2 by (simp add: limit_eq)
    show ?thesis using 1 2 3 True by auto
  next
    case False
    then show ?thesis using m by (simp add: limit_eq)
  qed
qed

lemma sub_forces_exact:
  "(0 < total_separation acc \<longrightarrow>
      (\<exists>f. separation_force p self acc = Some f \<and> vnorm f \<le> 0.2)) \<and>
   (0 < total_alignment acc \<longrightarrow>
      (\<exists>f. alignment_force p self acc = Some f \<and> vnorm f \<le> 0.2)) \<and>
   (0 < total_cohesion acc \<longrightarrow>
      (\<exists>f. cohesion_force p self acc = Some f \<and> vnorm f \<le> 0.2))"
  using separation_force_total[of acc p self] alignment_force_total[of acc p self]
    cohesion_force_total[of acc p self]
  by blast

section \<open>Lemmas on rounding to doubles\<close>

lemma rne_error: "\<bar>of_int (rne z) - z\<bar> \<le> 1 / 2"
proof -
  have "of_int \<lfloor>z\<rfloor> \<le> z" "z < of_int \<lfloor>z\<rfloor> + 1" by linarith+
  then show ?thesis by (auto simp add: rne_def Let_def)
qed

lemma rne_unique: "\<bar>z - of_int m\<bar> < 1 / 2 \<Longrightarrow> rne z = m"
proof -
  assume a: "\<bar>z - of_int m\<bar> < 1 / 2"
  have f: "of_int \<lfloor>z\<rfloor> \<le> z" "z < of_int \<lfloor>z\<rfloor> + 1" by linarith+
  have "\<lfloor>z\<rfloor> = m \<or> \<lfloor>z\<rfloor> = m - 1" using a f by linarith
  then show ?thesis
  proof
    assume fm: "\<lfloor>z\<rfloor> = m"
    have "z - of_int m < 1 / 2" using a by linarith
    then show ?thesis by (simp add: rne_def Let_def fm)
  next
    assume fm: "\<lfloor>z\<rfloor> = m - 1"
    have "- (1 / 2) < z - of_int m" using a by linarith
    then have "\<not> z - of_int (m - 1) < 1 / 2" "1 / 2 < z - of_int (m - 1)" by simp_all
    then show ?thesis by (simp add: rne_def Let_def fm)
  qed
qed

lemma rne_nonneg: "0 \<le> z \<Longrightarrow> 0 \<le> rne z"
proof -
  assume "0 \<le> z"
  then have "0 \<le> \<lfloor>z\<rfloor>" by simp
  then show ?thesis by (auto simp add: rne_def Let_def)
qed

lemma expo_below_spec:
  "- 1022 \<le> expo_below n a \<and> expo_below n a \<le> int n - 1022 \<and>
   (- 1022 < expo_below n a \<longrightarrow> 2 powi (expo_below n a) \<le> a) \<and>
   (2 powi (- 1022) \<le> a \<longrightarrow> 2 powi (expo_below n a) \<le> a) \<and>
   (expo_below n a < int n - 1022 \<longrightarrow> a < 2 powi (expo_below n a + 1))"
proof (induction n)
  case 0
  show ?case by simp
next
  case (Suc n)
  show ?case
  proof (cases "2 powi (int n - 1021) \<le> a")
    case True
    then show ?thesis by simp
  next
    case False
    have "a < 2 powi (expo_below n a + 1)"
    proof (cases "expo_below n a < int n - 1022")
      case True
      then show ?thesis using Suc by simp
    next
      case False
      then have eq: "expo_below n a + 1 = int n - 1021" using Suc by linarith
      have "a < 2 powi (int n - 1021)" using \<open>\<not> 2 powi (int n - 1021) \<le> a\<close> by simp
      then show ?thesis by (simp only: eq)
    qed
    then show ?thesis using False Suc by simp
  qed
qed

lemma expo_range: "- 1022 \<le> expo x" "expo x \<le> 1023"
  using expo_below_spec[of 2045 "\<bar>x\<bar>"] by (simp_all add: expo_def)

lemma expo_lower: "2 powi (- 1022) \<le> \<bar>x\<bar> \<Longrightarrow> 2 powi (expo x) \<le> \<bar>x\<bar>"
  using expo_below_spec[of 2045 "\<bar>x\<bar>"] by (simp add: expo_def)

lemma expo_subnormal: "\<bar>x\<bar> < 2 powi (- 1022) \<Longrightarrow> expo x = - 1022"
proof (rule ccontr)
  assume small: "\<bar>x\<bar> < 2 powi (- 1022)" and "expo x \<noteq> - 1022"
  then have big: "- 1022 < expo x" using expo_range(1)[of x] by linarith
  then have "2 powi (expo x) \<le> \<bar>x\<bar>"
    using expo_below_spec[of 2045 "\<bar>x\<bar>"] by (simp add: expo_def)
  moreover have "(2::real) powi (- 1022) \<le> 2 powi (expo x)"
    using big by (intro power_int_increasing) simp_all
  ultimately show False using small by linarith
qed

lemma expo_upper: "expo x < 1023 \<Longrightarrow> \<bar>x\<bar> < 2 powi (expo x + 1)"
  using expo_below_spec[of 2045 "\<bar>x\<bar>"] by (simp add: expo_def)

lemma expo_eq:
  assumes "2 powi e \<le> \<bar>x\<bar>" and "\<bar>x\<bar> < 2 powi (e + 1)" and "- 1022 \<le> e" and "e \<le> 1022"
  shows "expo x = e"
proof -
  have low: "(2::real) powi (- 1022) \<le> 2 powi e"
    using assms(3) by (intro power_int_increasing) simp_all
  then have 1: "2 powi (expo x) \<le> \<bar>x\<bar>" using assms(1) expo_lower[of x] by linarith
  have "expo x < e + 1"
  proof (rule ccontr)
    assume "\<not> expo x < e + 1"
    then have "(2::real) powi (e + 1) \<le> 2 powi (expo x)"
      by (intro power_int_increasing) simp_all
    then show False using 1 assms(2) by linarith
  qed
  moreover have "e < expo x + 1"
  proof (rule ccontr)
    assume n: "\<not> e < expo x + 1"
    then have "expo x < 1023" using assms(4) by linarith
    then have "\<bar>x\<bar> < 2 powi (expo x + 1)" by (rule expo_upper)
    moreover have "(2::real) powi (expo x + 1) \<le> 2 powi e"
      using n by (intro power_int_increasing) simp_all
    ultimately show False using assms(1) by linarith
  qed
  ultimately show ?thesis by linarith
qed

lemma quantum_pos: "0 < (2::real) powi k"
  by (simp add: zero_less_power_int)

lemma round_error:
  assumes "0 < q"
  shows "\<bar>of_int (rne (x / q)) * q - x\<bar> \<le> q / 2"
proof -
  have "of_int (rne (x / q)) * q - x = (of_int (rne (x / q)) - x / q) * q"
    using assms by (simp add: field_simps)
  then have "\<bar>of_int (rne (x / q)) * q - x\<bar> = \<bar>of_int (rne (x / q)) - x / q\<bar> * q"
    using assms by (simp add: abs_mult)
  also have "\<dots> \<le> (1 / 2) * q"
    using rne_error[of "x / q"] assms by (intro mult_right_mono) simp_all
  finally show ?thesis by simp
qed

lemma half_quantum: "(2::real) powi (e - 52) / 2 = 2 powi e / 2 ^ 53"
proof -
  have "(2::real) powi (e - 52) = 2 powi e / 2 powi 52"
    by (simp add: power_int_diff)
  then show ?thesis by simp
qed

lemma fl_Some:
  "fl x = Some y \<Longrightarrow> y = of_int (rne (x / 2 powi (expo x - 52))) * 2 powi (expo x - 52)"
  by (simp add: fl_def Let_def split: if_splits)

lemma fl_error_quantum: "fl x = Some y \<Longrightarrow> \<bar>y - x\<bar> \<le> 2 powi (expo x) / 2 ^ 53"
  using round_error[OF quantum_pos, of x "expo x - 52"] fl_Some[of x y]
  by (simp add: half_quantum)

lemma fl_relative:
  assumes "2 powi (- 1022) \<le> \<bar>x\<bar>" and "fl x = Some y"
  shows "\<bar>y - x\<bar> \<le> \<bar>x\<bar> / 2 ^ 53"
proof -
  have "\<bar>y - x\<bar> \<le> 2 powi (expo x) / 2 ^ 53" using assms(2) by (rule fl_error_quantum)
  also have "\<dots> \<le> \<bar>x\<bar> / 2 ^ 53"
    using expo_lower[OF assms(1)] by (simp add: divide_right_mono)
  finally show ?thesis .
qed

lemma fl_error:
  assumes "fl x = Some y"
  shows "\<bar>y - x\<bar> \<le> \<bar>x\<bar> / 2 ^ 53 + 1 / 2 ^ 1075"
proof (cases "2 powi (- 1022) \<le> \<bar>x\<bar>")
  case True
  then show ?thesis using fl_relative[OF True assms] by simp
next
  case False
  then have e: "expo x = - 1022" using expo_subnormal[of x] by simp
  have "\<bar>y - x\<bar> \<le> 2 powi (- 1022) / 2 ^ 53"
    using fl_error_quantum[OF assms] by (simp only: e)
  also have "\<dots> = 1 / 2 ^ 1075" by simp
  finally show ?thesis using abs_ge_zero[of x] by (simp add: add_increasing)
qed

lemma fl_defined:
  assumes "\<bar>x\<bar> \<le> 2 powi 1023"
  shows "\<exists>y. fl x = Some y"
proof -
  let ?q = "(2::real) powi (expo x - 52)"
  let ?y = "of_int (rne (x / ?q)) * ?q"
  have "\<bar>?y - x\<bar> \<le> 2 powi (expo x) / 2 ^ 53"
    using round_error[OF quantum_pos, of x "expo x - 52"] by (simp add: half_quantum)
  also have "\<dots> \<le> 2 powi 1023 / 2 ^ 53"
    using expo_range(2)[of x] by (intro divide_right_mono power_int_increasing) simp_all
  finally have "\<bar>?y\<bar> \<le> 2 powi 1023 + 2 powi 1023 / 2 ^ 53"
    using assms by linarith
  also have "\<dots> < 2 powi 1024" by simp
  finally show ?thesis by (simp add: fl_def Let_def)
qed

lemma fl_nonneg:
  assumes "0 \<le> x" and "fl x = Some y"
  shows "0 \<le> y"
proof -
  have "0 \<le> x / 2 powi (expo x - 52)" using assms(1) quantum_pos[of "expo x - 52"] by simp
  then have "0 \<le> rne (x / 2 powi (expo x - 52))" by (rule rne_nonneg)
  then show ?thesis using fl_Some[OF assms(2)] quantum_pos[of "expo x - 52"] by simp
qed

lemma fl_zero: "fl 0 = Some 0"
  by (simp add: fl_def rne_def)

lemma fl_eval:
  assumes "2 powi e \<le> \<bar>x\<bar>" and "\<bar>x\<bar> < 2 powi (e + 1)" and "- 1022 \<le> e" and "e \<le> 1022"
    and "q = 2 powi (e - 52)" and "\<bar>x - of_int m * q\<bar> < q / 2"
  shows "fl x = Some (of_int m * q)"
proof -
  have e: "expo x = e" using assms(1-4) by (rule expo_eq)
  have q: "0 < q" using assms(5) by (simp add: quantum_pos)
  have "x / q - of_int m = (x - of_int m * q) / q" using q by (simp add: field_simps)
  then have "\<bar>x / q - of_int m\<bar> = \<bar>x - of_int m * q\<bar> / q" using q by simp
  also have "\<dots> < (q / 2) / q" using assms(6) q by (simp add: divide_strict_right_mono)
  finally have "\<bar>x / q - of_int m\<bar> < 1 / 2" using q by simp
  then have r: "rne (x / q) = m" by (rule rne_unique)
  have "\<bar>of_int m * q\<bar> \<le> \<bar>x\<bar> + q / 2" using assms(6) by linarith
  also have "\<dots> < 2 powi (e + 1) + q / 2" using assms(2) by simp
  also have "\<dots> \<le> 2 powi 1023 + 2 powi 1023 / 2 ^ 53"
  proof -
    have "(2::real) powi (e + 1) \<le> 2 powi 1023"
      using assms(4) by (intro power_int_increasing) simp_all
    moreover have "q / 2 = 2 powi e / 2 ^ 53" using assms(5) by (simp add: half_quantum)
    moreover have "(2::real) powi e / 2 ^ 53 \<le> 2 powi 1023 / 2 ^ 53"
      using assms(4) by (intro divide_right_mono power_int_increasing) simp_all
    ultimately show ?thesis by linarith
  qed
  also have "\<dots> < 2 powi 1024" by simp
  finally have "\<not> 2 powi 1024 \<le> \<bar>of_int m * q\<bar>" by simp
  then show ?thesis using e r assms(5) by (simp add: fl_def Let_def)
qed

lemma fl_underflow:
  assumes "\<bar>x\<bar> < 1 / 2 ^ 1075"
  shows "fl x = Some 0"
proof -
  have "\<bar>x\<bar> < 2 powi (- 1022)" using assms by simp
  then have e: "expo x = - 1022" by (rule expo_subnormal)
  have "\<bar>x / 2 powi (- 1074) - of_int 0\<bar> = \<bar>x\<bar> * 2 ^ 1074" by (simp add: abs_mult)
  also have "\<dots> < 1 / 2" using assms by simp
  finally have "rne (x / 2 powi (- 1074)) = 0" by (rule rne_unique)
  then show ?thesis using e by (simp add: fl_def Let_def)
qed

lemma sqrt_between:
  assumes "0 \<le> lo" and "lo * lo < x" and "x < hi * hi" and "0 \<le> hi"
  shows "lo < sqrt x \<and> sqrt x < hi"
proof -
  have "sqrt (lo * lo) < sqrt x" using assms(2) by (simp only: real_sqrt_less_iff)
  moreover have "sqrt x < sqrt (hi * hi)" using assms(3) by (simp only: real_sqrt_less_iff)
  ultimately show ?thesis using assms(1,4) by simp
qed

lemma fl_sqrt2: "fl (sqrt 2) = Some (6369051672525773 / 2 ^ 52)"
proof -
  have b: "(6369051672525773 - 1 / 2) / 2 ^ 52 < sqrt 2 \<and> sqrt 2 < (6369051672525773 + 1 / 2) / 2 ^ 52"
    by (rule sqrt_between) simp_all
  have "fl (sqrt 2) = Some (of_int 6369051672525773 * (1 / 2 ^ 52))"
    using b by (intro fl_eval[where e = 0]) (simp_all add: abs_if field_simps)
  then show ?thesis by simp
qed

lemma fl_0_2: "fl 0.2 = Some double_0_2"
proof -
  have "fl (1 / 5) = Some (of_int 7205759403792794 * (1 / 2 ^ 55))"
    by (intro fl_eval[where e = "- 3"]) simp_all
  then show ?thesis by (simp add: double_0_2_def)
qed

lemma fl_rel:
  assumes "z = 0 \<or> 2 powi (- 1022) \<le> \<bar>z\<bar>" and "\<bar>z\<bar> \<le> 2 powi 1023"
  shows "\<exists>y. fl z = Some y \<and> \<bar>y - z\<bar> \<le> \<bar>z\<bar> / 2 ^ 53"
proof (cases "z = 0")
  case True
  then show ?thesis by (simp add: fl_zero)
next
  case False
  obtain y where y: "fl z = Some y" using fl_defined[OF assms(2)] by blast
  have "\<bar>y - z\<bar> \<le> \<bar>z\<bar> / 2 ^ 53" using fl_relative[of z y] assms(1) False y by simp
  then show ?thesis using y by blast
qed

lemma fl_rel_nonneg:
  assumes "0 \<le> z" and "z = 0 \<or> 2 powi (- 1022) \<le> z" and "z \<le> 2 powi 1023"
  shows "\<exists>y. fl z = Some y \<and> z * (1 - 1 / 2 ^ 53) \<le> y \<and> y \<le> z * (1 + 1 / 2 ^ 53)"
proof -
  obtain y where y: "fl z = Some y" and e: "\<bar>y - z\<bar> \<le> \<bar>z\<bar> / 2 ^ 53"
    using fl_rel[of z] assms by auto
  have "z * (1 - 1 / 2 ^ 53) \<le> y \<and> y \<le> z * (1 + 1 / 2 ^ 53)"
    using e assms(1) by (simp add: algebra_simps abs_if split: if_splits)
  then show ?thesis using y by blast
qed

lemma square_bounds:
  assumes "0 \<le> lo" and "lo \<le> \<bar>c::real\<bar>" and "\<bar>c\<bar> \<le> hi"
  shows "lo * lo \<le> c * c" and "c * c \<le> hi * hi"
proof -
  have "lo * lo \<le> \<bar>c\<bar> * \<bar>c\<bar>" by (rule mult_mono) (use assms in auto)
  then show "lo * lo \<le> c * c" by simp
  have "\<bar>c\<bar> * \<bar>c\<bar> \<le> hi * hi" by (rule mult_mono) (use assms in auto)
  then show "c * c \<le> hi * hi" by simp
qed

lemma safe_square:
  assumes "safe 500 c"
  shows "0 \<le> c * c" and "c * c = 0 \<or> 1 / 2 ^ 1000 \<le> c * c" and "c * c \<le> 2 ^ 1000"
    and "c \<noteq> 0 \<Longrightarrow> 1 / 2 ^ 1000 \<le> c * c"
proof -
  show "0 \<le> c * c" by simp
  have r: "1 / 2 ^ 1000 \<le> c * c \<and> c * c \<le> 2 ^ 1000" if "c \<noteq> 0"
  proof -
    have b: "1 / 2 ^ 500 \<le> \<bar>c\<bar>" "\<bar>c\<bar> \<le> 2 ^ 500" using assms that by (simp_all add: safe_def)
    have "(1 / 2 ^ 500) * (1 / 2 ^ 500) \<le> c * c" "c * c \<le> 2 ^ 500 * 2 ^ 500"
      using square_bounds[of "1 / 2 ^ 500" c "2 ^ 500"] b by simp_all
    then show ?thesis by simp
  qed
  then show "c * c = 0 \<or> 1 / 2 ^ 1000 \<le> c * c" by auto
  show "c * c \<le> 2 ^ 1000" using r by (cases "c = 0") simp_all
  show "c \<noteq> 0 \<Longrightarrow> 1 / 2 ^ 1000 \<le> c * c" using r by simp
qed

lemma product_rounded:
  assumes "safe 500 c"
  shows "\<exists>p. (if fused then Some (c * c) else fl (c * c)) = Some p \<and>
     c * c * (1 - 1 / 2 ^ 53) \<le> p \<and> p \<le> c * c * (1 + 1 / 2 ^ 53)"
proof (cases fused)
  case True
  have "c * c * (1 - 1 / 2 ^ 53) \<le> c * c \<and> c * c \<le> c * c * (1 + 1 / 2 ^ 53)"
    by (simp add: algebra_simps)
  then show ?thesis using True by simp
next
  case False
  have "c * c = 0 \<or> 2 powi (- 1022) \<le> c * c" "c * c \<le> 2 powi 1023"
    using safe_square(2,3)[OF assms] by auto
  then show ?thesis using fl_rel_nonneg[of "c * c"] False by simp
qed

lemma dot_fl_accurate:
  assumes "safe 500 x" and "safe 500 y" and "(x, y) \<noteq> (0, 0)"
  shows "\<exists>d. dot_fl fused (x, y) = Some d \<and>
     (x * x + y * y) * ((1 - 1 / 2 ^ 53) * (1 - 1 / 2 ^ 53)) \<le> d \<and>
     d \<le> (x * x + y * y) * ((1 + 1 / 2 ^ 53) * (1 + 1 / 2 ^ 53))"
proof -
  obtain p0 where p0: "fl (x * x) = Some p0" "x * x * (1 - 1 / 2 ^ 53) \<le> p0"
      "p0 \<le> x * x * (1 + 1 / 2 ^ 53)"
    using product_rounded[OF assms(1), of False] by auto
  obtain p1 where p1: "(if fused then Some (y * y) else fl (y * y)) = Some p1"
      "y * y * (1 - 1 / 2 ^ 53) \<le> p1" "p1 \<le> y * y * (1 + 1 / 2 ^ 53)"
    using product_rounded[OF assms(2), of fused] by auto
  have t: "1 / 2 ^ 1000 \<le> x * x + y * y" "x * x + y * y \<le> 2 * 2 ^ 1000"
    using safe_square[OF assms(1)] safe_square[OF assms(2)] assms(3) 
    by (auto simp add: add_increasing add_increasing2)
  have s_lo: "(x * x + y * y) * (1 - 1 / 2 ^ 53) \<le> p0 + p1"
    and s_hi: "p0 + p1 \<le> (x * x + y * y) * (1 + 1 / 2 ^ 53)"
    using p0(2,3) p1(2,3) by (simp_all add: algebra_simps)
  have "1 / 2 ^ 1000 * (1 - 1 / 2 ^ 53) \<le> (x * x + y * y) * (1 - 1 / 2 ^ 53)"
    using t(1) by (intro mult_right_mono) simp_all
  then have s1: "1 / 2 ^ 1022 \<le> p0 + p1" using s_lo by simp
  have "(x * x + y * y) * (1 + 1 / 2 ^ 53) \<le> 2 * 2 ^ 1000 * (1 + 1 / 2 ^ 53)"
    using t(2) by (intro mult_right_mono) simp_all
  then have s2: "p0 + p1 \<le> 2 ^ 1023" using s_hi by simp
  obtain d where d: "fl (p0 + p1) = Some d" "(p0 + p1) * (1 - 1 / 2 ^ 53) \<le> d"
      "d \<le> (p0 + p1) * (1 + 1 / 2 ^ 53)"
    using fl_rel_nonneg[of "p0 + p1"] s1 s2 by auto
  have "(x * x + y * y) * (1 - 1 / 2 ^ 53) * (1 - 1 / 2 ^ 53) \<le> (p0 + p1) * (1 - 1 / 2 ^ 53)"
    using s_lo by (intro mult_right_mono) simp_all
  moreover have "(p0 + p1) * (1 + 1 / 2 ^ 53) \<le> (x * x + y * y) * (1 + 1 / 2 ^ 53) * (1 + 1 / 2 ^ 53)"
    using s_hi by (intro mult_right_mono) simp_all
  moreover have "dot_fl fused (x, y) = Some d"
    using p0(1) p1(1) d(1) by (cases fused) (simp_all add: dot_fl_def)
  ultimately show ?thesis using d(2,3) by (auto simp add: mult.assoc)
qed

lemma sqrt_scaled: "0 \<le> a \<Longrightarrow> sqrt (t * (a * a)) = sqrt t * a"
  by (simp add: real_sqrt_mult)

lemma sqrt_ge: "0 \<le> c \<Longrightarrow> c * c \<le> t \<Longrightarrow> c \<le> sqrt t"
  using real_sqrt_le_mono[of "c * c" t] by simp

lemma sqrt_le: "0 \<le> c \<Longrightarrow> t \<le> c * c \<Longrightarrow> sqrt t \<le> c"
  using real_sqrt_le_mono[of t "c * c"] by simp

lemma norm_fl_accurate:
  assumes "safe 500 x" and "safe 500 y" and "(x, y) \<noteq> (0, 0)"
  shows "\<exists>n. norm_fl fused (x, y) = Some n \<and> 0 < n \<and>
     vnorm (x, y) * ((1 - 1 / 2 ^ 53) * (1 - 1 / 2 ^ 53)) \<le> n \<and>
     n \<le> vnorm (x, y) * ((1 + 1 / 2 ^ 53) * (1 + 1 / 2 ^ 53)) \<and>
     1 / 2 ^ 500 \<le> vnorm (x, y) \<and> vnorm (x, y) \<le> 2 ^ 501"
proof -
  let ?t = "x * x + y * y"
  obtain d where d: "dot_fl fused (x, y) = Some d"
      "?t * ((1 - 1 / 2 ^ 53) * (1 - 1 / 2 ^ 53)) \<le> d"
      "d \<le> ?t * ((1 + 1 / 2 ^ 53) * (1 + 1 / 2 ^ 53))"
    using dot_fl_accurate[OF assms] by blast
  have t: "1 / 2 ^ 1000 \<le> ?t" "?t \<le> 2 * 2 ^ 1000"
    using safe_square[OF assms(1)] safe_square[OF assms(2)] assms(3)
    by (auto simp add: add_increasing add_increasing2)
  have v: "vnorm (x, y) = sqrt ?t" by (simp add: vnorm_def)
  have v_lo: "1 / 2 ^ 500 \<le> sqrt ?t"
    using t(1) by (intro sqrt_ge) simp_all
  have v_hi: "sqrt ?t \<le> 2 ^ 501"
    using t(2) by (intro sqrt_le) simp_all
  have "sqrt (?t * ((1 - 1 / 2 ^ 53) * (1 - 1 / 2 ^ 53))) \<le> sqrt d"
    using d(2) by (rule real_sqrt_le_mono)
  moreover have "sqrt (?t * ((1 - 1 / 2 ^ 53) * (1 - 1 / 2 ^ 53))) = sqrt ?t * (1 - 1 / 2 ^ 53)"
    by (rule sqrt_scaled) simp
  ultimately have r_lo: "sqrt ?t * (1 - 1 / 2 ^ 53) \<le> sqrt d"
    by (simp only:)
  have "sqrt d \<le> sqrt (?t * ((1 + 1 / 2 ^ 53) * (1 + 1 / 2 ^ 53)))"
    using d(3) by (rule real_sqrt_le_mono)
  moreover have "sqrt (?t * ((1 + 1 / 2 ^ 53) * (1 + 1 / 2 ^ 53))) = sqrt ?t * (1 + 1 / 2 ^ 53)"
    by (rule sqrt_scaled) simp
  ultimately have r_hi: "sqrt d \<le> sqrt ?t * (1 + 1 / 2 ^ 53)"
    by (simp only:)
  have "1 / 2 ^ 500 * (1 - 1 / 2 ^ 53) \<le> sqrt ?t * (1 - 1 / 2 ^ 53)"
    using v_lo by (intro mult_right_mono) simp_all
  then have r1: "1 / 2 ^ 1022 \<le> sqrt d" using r_lo by simp
  have "sqrt ?t * (1 + 1 / 2 ^ 53) \<le> 2 ^ 501 * (1 + 1 / 2 ^ 53)"
    using v_hi by (intro mult_right_mono) simp_all
  then have r2: "sqrt d \<le> 2 ^ 1023" using r_hi by simp
  have "(0::real) < 1 / 2 ^ 1022" by simp
  then have rpos: "0 < sqrt d" using r1 by (rule less_le_trans)
  then have r0: "0 \<le> sqrt d" by (rule less_imp_le)
  obtain n where n: "fl (sqrt d) = Some n" "sqrt d * (1 - 1 / 2 ^ 53) \<le> n"
      "n \<le> sqrt d * (1 + 1 / 2 ^ 53)"
    using fl_rel_nonneg[of "sqrt d"] r0 r1 r2 by auto
  have "sqrt ?t * (1 - 1 / 2 ^ 53) * (1 - 1 / 2 ^ 53) \<le> sqrt d * (1 - 1 / 2 ^ 53)"
    using r_lo by (intro mult_right_mono) simp_all
  then have n_lo: "sqrt ?t * ((1 - 1 / 2 ^ 53) * (1 - 1 / 2 ^ 53)) \<le> n"
    using n(2) by (simp add: mult.assoc)
  have "sqrt d * (1 + 1 / 2 ^ 53) \<le> sqrt ?t * (1 + 1 / 2 ^ 53) * (1 + 1 / 2 ^ 53)"
    using r_hi by (intro mult_right_mono) simp_all
  then have n_hi: "n \<le> sqrt ?t * ((1 + 1 / 2 ^ 53) * (1 + 1 / 2 ^ 53))"
    using n(3) by (simp add: mult.assoc)
  have "0 < sqrt d * (1 - 1 / 2 ^ 53)" using rpos by (intro mult_pos_pos) simp_all
  then have "0 < n" using n(2) by linarith
  moreover have "norm_fl fused (x, y) = Some n" using d(1) n(1) by (simp add: norm_fl_def)
  ultimately show ?thesis using n_lo n_hi v_lo v_hi by (simp only: v) blast
qed

lemma abs_le_vnorm: "\<bar>fst a\<bar> \<le> vnorm a" "\<bar>snd a\<bar> \<le> vnorm a"
  unfolding vnorm_def by (rule sqrt_ge; simp)+

lemma vnorm_perturbed:
  assumes "0 \<le> e" and "e \<le> 1"
    and "\<bar>fst r - fst g\<bar> \<le> e * \<bar>fst g\<bar>" and "\<bar>snd r - snd g\<bar> \<le> e * \<bar>snd g\<bar>"
  shows "vnorm g * (1 - e) \<le> vnorm r" and "vnorm r \<le> vnorm g * (1 + e)"
proof -
  have g2: "vnorm g * vnorm g = fst g * fst g + snd g * snd g"
    by (simp add: vnorm_def)
  have x: "(1 - e) * \<bar>fst g\<bar> \<le> \<bar>fst r\<bar>" "\<bar>fst r\<bar> \<le> (1 + e) * \<bar>fst g\<bar>"
    using assms(3) by (simp_all add: algebra_simps abs_if split: if_splits)
  have y: "(1 - e) * \<bar>snd g\<bar> \<le> \<bar>snd r\<bar>" "\<bar>snd r\<bar> \<le> (1 + e) * \<bar>snd g\<bar>"
    using assms(4) by (simp_all add: algebra_simps abs_if split: if_splits)
  have nn: "0 \<le> (1 - e) * \<bar>fst g\<bar>" "0 \<le> (1 - e) * \<bar>snd g\<bar>"
    using assms(2) by simp_all
  have x2: "((1 - e) * \<bar>fst g\<bar>) * ((1 - e) * \<bar>fst g\<bar>) \<le> fst r * fst r"
      "fst r * fst r \<le> ((1 + e) * \<bar>fst g\<bar>) * ((1 + e) * \<bar>fst g\<bar>)"
    using square_bounds[OF nn(1) x] by simp_all
  have y2: "((1 - e) * \<bar>snd g\<bar>) * ((1 - e) * \<bar>snd g\<bar>) \<le> snd r * snd r"
      "snd r * snd r \<le> ((1 + e) * \<bar>snd g\<bar>) * ((1 + e) * \<bar>snd g\<bar>)"
    using square_bounds[OF nn(2) y] by simp_all
  have lo: "(vnorm g * (1 - e)) * (vnorm g * (1 - e)) \<le> fst r * fst r + snd r * snd r"
  proof -
    have "(vnorm g * (1 - e)) * (vnorm g * (1 - e)) = (vnorm g * vnorm g) * ((1 - e) * (1 - e))"
      by (simp add: algebra_simps)
    also have "\<dots> = ((1 - e) * \<bar>fst g\<bar>) * ((1 - e) * \<bar>fst g\<bar>)
        + ((1 - e) * \<bar>snd g\<bar>) * ((1 - e) * \<bar>snd g\<bar>)"
      by (simp only: g2) (simp add: algebra_simps)
    finally show ?thesis using x2(1) y2(1) by linarith
  qed
  have hi: "fst r * fst r + snd r * snd r \<le> (vnorm g * (1 + e)) * (vnorm g * (1 + e))"
  proof -
    have "(vnorm g * (1 + e)) * (vnorm g * (1 + e)) = (vnorm g * vnorm g) * ((1 + e) * (1 + e))"
      by (simp add: algebra_simps)
    also have "\<dots> = ((1 + e) * \<bar>fst g\<bar>) * ((1 + e) * \<bar>fst g\<bar>)
        + ((1 + e) * \<bar>snd g\<bar>) * ((1 + e) * \<bar>snd g\<bar>)"
      by (simp only: g2) (simp add: algebra_simps)
    finally show ?thesis using x2(2) y2(2) by linarith
  qed
  show "vnorm g * (1 - e) \<le> vnorm r"
    unfolding vnorm_def[of r] using lo assms(2) vnorm_nonneg[of g] by (intro sqrt_ge) simp_all
  show "vnorm r \<le> vnorm g * (1 + e)"
    unfolding vnorm_def[of r] using hi assms(1) vnorm_nonneg[of g] by (intro sqrt_le) simp_all
qed

lemma quotient_rounded:
  assumes "safe 500 c" and "\<bar>c\<bar> \<le> v" and "v \<le> 2 ^ 501"
    and "v * ((1 - 1 / 2 ^ 53) * (1 - 1 / 2 ^ 53)) \<le> n"
    and "n \<le> v * ((1 + 1 / 2 ^ 53) * (1 + 1 / 2 ^ 53))" and "0 < n"
  shows "\<exists>r. fl (c / n) = Some r \<and> \<bar>r - c / n\<bar> \<le> \<bar>c / n\<bar> / 2 ^ 53"
    and "\<bar>c / n\<bar> \<le> 2" and "c \<noteq> 0 \<Longrightarrow> 1 / 2 ^ 1002 \<le> \<bar>c / n\<bar>"
proof -
  have q: "\<bar>c / n\<bar> = \<bar>c\<bar> / n" using assms(6) by simp
  have "v * (1 / 2) \<le> v * ((1 - 1 / 2 ^ 53) * (1 - 1 / 2 ^ 53))"
    using assms(2) by (intro mult_left_mono) (simp_all add: order_trans[OF abs_ge_zero])
  then have "\<bar>c\<bar> \<le> 2 * n" using assms(2,4) by linarith
  then show up: "\<bar>c / n\<bar> \<le> 2" using assms(6) by (simp add: q field_simps)
  have "v * ((1 + 1 / 2 ^ 53) * (1 + 1 / 2 ^ 53)) \<le> 2 ^ 501 * ((1 + 1 / 2 ^ 53) * (1 + 1 / 2 ^ 53))"
    using assms(3) by (intro mult_right_mono) simp_all
  then have n_hi: "n \<le> 2 ^ 502" using assms(5) by simp
  have lo: "1 / 2 ^ 1002 \<le> \<bar>c / n\<bar>" if "c \<noteq> 0"
  proof -
    have "1 / 2 ^ 500 \<le> \<bar>c\<bar>" using assms(1) that by (simp add: safe_def)
    moreover have "n / 2 ^ 1002 \<le> 1 / 2 ^ 500" using n_hi by simp
    ultimately have "n / 2 ^ 1002 \<le> \<bar>c\<bar>" by linarith
    then show ?thesis using assms(6) by (simp add: q field_simps)
  qed
  then show "c \<noteq> 0 \<Longrightarrow> 1 / 2 ^ 1002 \<le> \<bar>c / n\<bar>" .
  have "c / n = 0 \<or> 2 powi (- 1022) \<le> \<bar>c / n\<bar>"
  proof (cases "c = 0")
    case True
    then show ?thesis by simp
  next
    case False
    have "(2::real) powi (- 1022) \<le> 1 / 2 ^ 1002" by simp
    then show ?thesis using lo[OF False] by linarith
  qed
  moreover have "\<bar>c / n\<bar> \<le> 2 powi 1023" using up by simp
  ultimately show "\<exists>r. fl (c / n) = Some r \<and> \<bar>r - c / n\<bar> \<le> \<bar>c / n\<bar> / 2 ^ 53"
    by (rule fl_rel)
qed

lemma normalize_fl_zero: "normalize_fl fused (0, 0) = Some (0, 0)"
  by (simp add: normalize_fl_def norm_fl_def dot_fl_def fl_zero)

lemma vdiv_fl_accurate:
  assumes "safe 500 x" and "safe 500 y" and "(x, y) \<noteq> (0, 0)"
    and "norm_fl fused (x, y) = Some n"
  shows "\<exists>r. vdiv_fl (x, y) n = Some r \<and>
      \<bar>fst r - x / n\<bar> \<le> \<bar>x / n\<bar> / 2 ^ 53 \<and> \<bar>snd r - y / n\<bar> \<le> \<bar>y / n\<bar> / 2 ^ 53 \<and>
      (1 - 1 / 2 ^ 53) / ((1 + 1 / 2 ^ 53) * (1 + 1 / 2 ^ 53)) \<le> vnorm r \<and>
      vnorm r \<le> (1 + 1 / 2 ^ 53) / ((1 - 1 / 2 ^ 53) * (1 - 1 / 2 ^ 53))"
proof -
  let ?v = "vnorm (x, y)"
  have n: "0 < n" "?v * ((1 - 1 / 2 ^ 53) * (1 - 1 / 2 ^ 53)) \<le> n"
      "n \<le> ?v * ((1 + 1 / 2 ^ 53) * (1 + 1 / 2 ^ 53))" "?v \<le> 2 ^ 501" "1 / 2 ^ 500 \<le> ?v"
    using norm_fl_accurate[OF assms(1-3), of fused] assms(4) by auto
  have vpos: "0 < ?v"
  proof -
    have "(0::real) < 1 / 2 ^ 500" by simp
    then show ?thesis using n(5) by (rule less_le_trans)
  qed
  have cx: "\<bar>x\<bar> \<le> ?v" and cy: "\<bar>y\<bar> \<le> ?v"
    using abs_le_vnorm[of "(x, y)"] by simp_all
  obtain rx where rx: "fl (x / n) = Some rx" "\<bar>rx - x / n\<bar> \<le> \<bar>x / n\<bar> / 2 ^ 53"
    using quotient_rounded(1)[OF assms(1) cx n(4) n(2) n(3) n(1)] by blast
  obtain ry where ry: "fl (y / n) = Some ry" "\<bar>ry - y / n\<bar> \<le> \<bar>y / n\<bar> / 2 ^ 53"
    using quotient_rounded(1)[OF assms(2) cy n(4) n(2) n(3) n(1)] by blast
  have d: "vdiv_fl (x, y) n = Some (rx, ry)"
    using rx(1) ry(1) n(1) by (simp add: vdiv_fl_def)
  have g: "vnorm (x / n, y / n) = ?v / n"
    using vnorm_quot[of "(x, y)" n] n(1) by simp
  have p: "vnorm (x / n, y / n) * (1 - 1 / 2 ^ 53) \<le> vnorm (rx, ry)"
      "vnorm (rx, ry) \<le> vnorm (x / n, y / n) * (1 + 1 / 2 ^ 53)"
    using vnorm_perturbed[of "1 / 2 ^ 53" "(rx, ry)" "(x / n, y / n)"] rx(2) ry(2) by simp_all
  have q_hi: "?v / n \<le> 1 / ((1 - 1 / 2 ^ 53) * (1 - 1 / 2 ^ 53))"
  proof -
    have "?v \<le> n / ((1 - 1 / 2 ^ 53) * (1 - 1 / 2 ^ 53))"
      using n(2) by (simp add: pos_le_divide_eq)
    then have "?v / n \<le> (n / ((1 - 1 / 2 ^ 53) * (1 - 1 / 2 ^ 53))) / n"
      using n(1) by (intro divide_right_mono) simp_all
    then show ?thesis using n(1) by simp
  qed
  have q_lo: "1 / ((1 + 1 / 2 ^ 53) * (1 + 1 / 2 ^ 53)) \<le> ?v / n"
  proof -
    have "n / ((1 + 1 / 2 ^ 53) * (1 + 1 / 2 ^ 53)) \<le> ?v"
      using n(3) by (simp add: pos_divide_le_eq)
    then have "(n / ((1 + 1 / 2 ^ 53) * (1 + 1 / 2 ^ 53))) / n \<le> ?v / n"
      using n(1) by (intro divide_right_mono) simp_all
    then show ?thesis using n(1) by simp
  qed
  have "1 / ((1 + 1 / 2 ^ 53) * (1 + 1 / 2 ^ 53)) * (1 - 1 / 2 ^ 53)
        \<le> (?v / n) * (1 - 1 / 2 ^ 53)"
    using q_lo by (intro mult_right_mono) simp_all
  then have lo: "(1 - 1 / 2 ^ 53) / ((1 + 1 / 2 ^ 53) * (1 + 1 / 2 ^ 53)) \<le> vnorm (rx, ry)"
    using p(1) by (simp only: g) simp
  have "(?v / n) * (1 + 1 / 2 ^ 53)
        \<le> 1 / ((1 - 1 / 2 ^ 53) * (1 - 1 / 2 ^ 53)) * (1 + 1 / 2 ^ 53)"
    using q_hi by (intro mult_right_mono) simp_all
  then have hi: "vnorm (rx, ry) \<le> (1 + 1 / 2 ^ 53) / ((1 - 1 / 2 ^ 53) * (1 - 1 / 2 ^ 53))"
    using p(2) by (simp only: g) simp
  show ?thesis using d rx(2) ry(2) lo hi by simp
qed

lemma safe_mono: "safe 300 c \<Longrightarrow> safe 500 c"
proof -
  assume a: "safe 300 c"
  have "(1::real) / 2 ^ 500 \<le> 1 / 2 ^ 300" "(2::real) ^ 300 \<le> 2 ^ 500" by simp_all
  then show ?thesis using a unfolding safe_def by linarith
qed

lemma safe_90_300: "safe 90 c \<Longrightarrow> safe 300 c"
proof -
  assume a: "safe 90 c"
  have "(1::real) / 2 ^ 300 \<le> 1 / 2 ^ 90" "(2::real) ^ 90 \<le> 2 ^ 300" by simp_all
  then show ?thesis using a unfolding safe_def by linarith
qed

lemma vnorm_le_sum: "vnorm a \<le> \<bar>fst a\<bar> + \<bar>snd a\<bar>"
proof -
  have "fst a * fst a + snd a * snd a \<le> (\<bar>fst a\<bar> + \<bar>snd a\<bar>) * (\<bar>fst a\<bar> + \<bar>snd a\<bar>)"
    by (simp add: algebra_simps)
  then show ?thesis unfolding vnorm_def by (intro sqrt_le) simp_all
qed

lemma scaled_component:
  assumes "\<bar>r - q\<bar> \<le> \<bar>q\<bar> / 2 ^ 53" and "q = 0 \<or> 1 / 2 ^ 602 \<le> \<bar>q\<bar>" and "\<bar>q\<bar> \<le> 2"
    and "safe 300 m" and "0 < m"
  shows "\<exists>f. fl (r * m) = Some f \<and> \<bar>f - q * m\<bar> \<le> 3 / 2 ^ 53 * \<bar>q * m\<bar>"
proof -
  have m: "1 / 2 ^ 300 \<le> m" "m \<le> 2 ^ 300" using assms(4,5) by (simp_all add: safe_def)
  have d: "\<bar>r * m - q * m\<bar> \<le> \<bar>q * m\<bar> / 2 ^ 53"
  proof -
    have "\<bar>r * m - q * m\<bar> = \<bar>r - q\<bar> * m" using assms(5) by (simp add: abs_mult flip: left_diff_distrib)
    also have "\<dots> \<le> (\<bar>q\<bar> / 2 ^ 53) * m" using assms(1,5) by (intro mult_right_mono) simp_all
    also have "\<dots> = \<bar>q * m\<bar> / 2 ^ 53" using assms(5) by (simp add: abs_mult)
    finally show ?thesis .
  qed
  have range: "(r * m = 0 \<or> 2 powi (- 1022) \<le> \<bar>r * m\<bar>) \<and> \<bar>r * m\<bar> \<le> 2 powi 1023"
  proof (cases "q = 0")
    case True
    then have "r = 0" using assms(1) by simp
    then show ?thesis by simp
  next
    case False
    then have q: "1 / 2 ^ 602 \<le> \<bar>q\<bar>" using assms(2) by simp
    have "(1 / 2) * \<bar>q\<bar> \<le> \<bar>q\<bar> - \<bar>q\<bar> / 2 ^ 53" by simp
    moreover have "\<bar>q\<bar> - \<bar>q\<bar> / 2 ^ 53 \<le> \<bar>r\<bar>" "\<bar>r\<bar> \<le> \<bar>q\<bar> + \<bar>q\<bar> / 2 ^ 53"
      using assms(1) by linarith+
    moreover have "\<bar>q\<bar> / 2 ^ 53 \<le> \<bar>q\<bar>" by simp
    moreover have "(1 / 2) * (1 / 2 ^ 602) \<le> (1 / 2) * \<bar>q\<bar>"
      using q by (intro mult_left_mono) simp_all
    ultimately have r: "1 / 2 ^ 603 \<le> \<bar>r\<bar>" "\<bar>r\<bar> \<le> 4" using assms(3) by simp_all
    have "(1 / 2 ^ 603) * (1 / 2 ^ 300) \<le> \<bar>r\<bar> * m"
      using r(1) m(1) by (intro mult_mono) simp_all
    moreover have "\<bar>r\<bar> * m \<le> 4 * 2 ^ 300"
      using r(2) m(2) assms(5) by (intro mult_mono) simp_all
    ultimately show ?thesis using assms(5) by (simp add: abs_mult)
  qed
  obtain f where f: "fl (r * m) = Some f" "\<bar>f - r * m\<bar> \<le> \<bar>r * m\<bar> / 2 ^ 53"
    using fl_rel[of "r * m"] range by blast
  have c: "(2::real) ^ 53 = 9007199254740992" by simp
  have t1: "\<bar>r * m\<bar> \<le> \<bar>q * m\<bar> + \<bar>r * m - q * m\<bar>" by linarith
  have t2: "\<bar>f - q * m\<bar> \<le> \<bar>f - r * m\<bar> + \<bar>r * m - q * m\<bar>" by linarith
  have "\<bar>f - q * m\<bar> \<le> 3 / 2 ^ 53 * \<bar>q * m\<bar>"
    using f(2) d t1 t2 abs_ge_zero[of "q * m"] unfolding c by linarith
  then show ?thesis using f(1) by blast
qed

lemma quotient_lower:
  assumes "safe 300 c" and "c \<noteq> 0" and "0 < n" and "n \<le> 2 ^ 302"
  shows "1 / 2 ^ 602 \<le> \<bar>c / n\<bar>"
proof -
  have "1 / 2 ^ 300 \<le> \<bar>c\<bar>" using assms(1,2) by (simp add: safe_def)
  moreover have "n / 2 ^ 602 \<le> 1 / 2 ^ 300" using assms(4) by simp
  ultimately have "n / 2 ^ 602 \<le> \<bar>c\<bar>" by linarith
  then show ?thesis using assms(3) by (simp add: field_simps)
qed

lemma limit_fl_scaled:
  assumes "safe 300 x" and "safe 300 y" and "(x, y) \<noteq> (0, 0)" and "safe 300 m" and "0 < m"
    and "norm_fl fused (x, y) = Some n" and "m < n"
  shows "\<exists>f. limit_fl fused (x, y) m = Some f \<and>
      \<bar>fst f - x / n * m\<bar> \<le> 3 / 2 ^ 53 * \<bar>x / n * m\<bar> \<and>
      \<bar>snd f - y / n * m\<bar> \<le> 3 / 2 ^ 53 * \<bar>y / n * m\<bar> \<and>
      m * ((1 - 3 / 2 ^ 53) / ((1 + 1 / 2 ^ 53) * (1 + 1 / 2 ^ 53))) \<le> vnorm f \<and>
      vnorm f \<le> m * ((1 + 3 / 2 ^ 53) / ((1 - 1 / 2 ^ 53) * (1 - 1 / 2 ^ 53)))"
proof -
  let ?v = "vnorm (x, y)"
  have sx: "safe 500 x" and sy: "safe 500 y" using assms(1,2) by (simp_all add: safe_mono)
  have n: "0 < n" "?v * ((1 - 1 / 2 ^ 53) * (1 - 1 / 2 ^ 53)) \<le> n"
      "n \<le> ?v * ((1 + 1 / 2 ^ 53) * (1 + 1 / 2 ^ 53))" "?v \<le> 2 ^ 501"
    using norm_fl_accurate[OF sx sy assms(3), of fused] assms(6) by auto
  have cx: "\<bar>x\<bar> \<le> ?v" and cy: "\<bar>y\<bar> \<le> ?v"
    using abs_le_vnorm[of "(x, y)"] by simp_all
  have "\<bar>x\<bar> \<le> 2 ^ 300" "\<bar>y\<bar> \<le> 2 ^ 300" using assms(1,2) by (auto simp add: safe_def)
  then have "?v \<le> 2 ^ 301" using vnorm_le_sum[of "(x, y)"] by simp
  then have "?v * ((1 + 1 / 2 ^ 53) * (1 + 1 / 2 ^ 53)) \<le> 2 ^ 301 * ((1 + 1 / 2 ^ 53) * (1 + 1 / 2 ^ 53))"
    by (intro mult_right_mono) simp_all
  then have n302: "n \<le> 2 ^ 302" using n(3) by simp
  obtain rx where rx: "fl (x / n) = Some rx" "\<bar>rx - x / n\<bar> \<le> \<bar>x / n\<bar> / 2 ^ 53"
    using quotient_rounded(1)[OF sx cx n(4) n(2) n(3) n(1)] by blast
  obtain ry where ry: "fl (y / n) = Some ry" "\<bar>ry - y / n\<bar> \<le> \<bar>y / n\<bar> / 2 ^ 53"
    using quotient_rounded(1)[OF sy cy n(4) n(2) n(3) n(1)] by blast
  have qx: "x / n = 0 \<or> 1 / 2 ^ 602 \<le> \<bar>x / n\<bar>" "\<bar>x / n\<bar> \<le> 2"
    using quotient_lower[OF assms(1) _ n(1) n302] quotient_rounded(2)[OF sx cx n(4) n(2) n(3) n(1)]
    by auto
  have qy: "y / n = 0 \<or> 1 / 2 ^ 602 \<le> \<bar>y / n\<bar>" "\<bar>y / n\<bar> \<le> 2"
    using quotient_lower[OF assms(2) _ n(1) n302] quotient_rounded(2)[OF sy cy n(4) n(2) n(3) n(1)]
    by auto
  obtain fx where fx: "fl (rx * m) = Some fx" "\<bar>fx - x / n * m\<bar> \<le> 3 / 2 ^ 53 * \<bar>x / n * m\<bar>"
    using scaled_component[OF rx(2) qx assms(4,5)] by blast
  obtain fy where fy: "fl (ry * m) = Some fy" "\<bar>fy - y / n * m\<bar> \<le> 3 / 2 ^ 53 * \<bar>y / n * m\<bar>"
    using scaled_component[OF ry(2) qy assms(4,5)] by blast
  have l: "limit_fl fused (x, y) m = Some (fx, fy)"
    using assms(6,7) n(1) rx(1) ry(1) fx(1) fy(1)
    by (simp add: limit_fl_def vdiv_fl_def vscale_fl_def)
  have g: "vnorm (x / n * m, y / n * m) = ?v / n * m"
  proof -
    have "vnorm (vscale (x / n, y / n) m) = \<bar>m\<bar> * vnorm (x / n, y / n)" by (rule vnorm_vscale)
    then show ?thesis using vnorm_quot[of "(x, y)" n] n(1) assms(5) by (simp add: vscale_def)
  qed
  have p: "vnorm (x / n * m, y / n * m) * (1 - 3 / 2 ^ 53) \<le> vnorm (fx, fy)"
      "vnorm (fx, fy) \<le> vnorm (x / n * m, y / n * m) * (1 + 3 / 2 ^ 53)"
    using vnorm_perturbed[of "3 / 2 ^ 53" "(fx, fy)" "(x / n * m, y / n * m)"] fx(2) fy(2)
    by simp_all
  have q_hi: "?v / n \<le> 1 / ((1 - 1 / 2 ^ 53) * (1 - 1 / 2 ^ 53))"
  proof -
    have "?v \<le> n / ((1 - 1 / 2 ^ 53) * (1 - 1 / 2 ^ 53))"
      using n(2) by (simp add: pos_le_divide_eq)
    then have "?v / n \<le> (n / ((1 - 1 / 2 ^ 53) * (1 - 1 / 2 ^ 53))) / n"
      using n(1) by (intro divide_right_mono) simp_all
    then show ?thesis using n(1) by simp
  qed
  have q_lo: "1 / ((1 + 1 / 2 ^ 53) * (1 + 1 / 2 ^ 53)) \<le> ?v / n"
  proof -
    have "n / ((1 + 1 / 2 ^ 53) * (1 + 1 / 2 ^ 53)) \<le> ?v"
      using n(3) by (simp add: pos_divide_le_eq)
    then have "(n / ((1 + 1 / 2 ^ 53) * (1 + 1 / 2 ^ 53))) / n \<le> ?v / n"
      using n(1) by (intro divide_right_mono) simp_all
    then show ?thesis using n(1) by simp
  qed
  have "1 / ((1 + 1 / 2 ^ 53) * (1 + 1 / 2 ^ 53)) * m * (1 - 3 / 2 ^ 53)
        \<le> ?v / n * m * (1 - 3 / 2 ^ 53)"
    using q_lo assms(5) by (intro mult_right_mono) simp_all
  then have lo: "m * ((1 - 3 / 2 ^ 53) / ((1 + 1 / 2 ^ 53) * (1 + 1 / 2 ^ 53))) \<le> vnorm (fx, fy)"
    using p(1) by (simp only: g) (simp add: algebra_simps)
  have "?v / n * m * (1 + 3 / 2 ^ 53)
        \<le> 1 / ((1 - 1 / 2 ^ 53) * (1 - 1 / 2 ^ 53)) * m * (1 + 3 / 2 ^ 53)"
    using q_hi assms(5) by (intro mult_right_mono) simp_all
  then have hi: "vnorm (fx, fy) \<le> m * ((1 + 3 / 2 ^ 53) / ((1 - 1 / 2 ^ 53) * (1 - 1 / 2 ^ 53)))"
    using p(2) by (simp only: g) (simp add: algebra_simps)
  show ?thesis using l fx(2) fy(2) lo hi by simp
qed

lemma limit_component_safe:
  assumes "safe 90 c" and "safe 90 m" and "0 < m" and "0 < n" and "n \<le> 2 ^ 92"
    and "\<bar>c / n\<bar> \<le> 2" and "\<bar>f - c / n * m\<bar> \<le> 3 / 2 ^ 53 * \<bar>c / n * m\<bar>"
  shows "safe 300 f" and "c \<noteq> 0 \<Longrightarrow> f \<noteq> 0"
proof -
  have m: "1 / 2 ^ 90 \<le> m" "m \<le> 2 ^ 90" using assms(2,3) by (simp_all add: safe_def)
  have c53: "(2::real) ^ 53 = 9007199254740992" by simp
  have g: "\<bar>c / n * m\<bar> = \<bar>c / n\<bar> * m" using assms(3) by (simp add: abs_mult)
  have up: "\<bar>c / n * m\<bar> \<le> 2 * 2 ^ 90"
    unfolding g using assms(6) m(2) assms(3) by (intro mult_mono) simp_all
  have f_up: "\<bar>f\<bar> \<le> 2 ^ 300"
  proof -
    have "\<bar>f\<bar> \<le> 2 * \<bar>c / n * m\<bar>" using assms(7) unfolding c53 by linarith
    also have "\<dots> \<le> 2 * (2 * 2 ^ 90)" using up by simp
    also have "\<dots> \<le> 2 ^ 300" by simp
    finally show ?thesis .
  qed
  have nz: "1 / 2 ^ 300 \<le> \<bar>f\<bar>" if "c \<noteq> 0"
  proof -
    have "1 / 2 ^ 90 \<le> \<bar>c\<bar>" using assms(1) that by (simp add: safe_def)
    moreover have "n / 2 ^ 182 \<le> 1 / 2 ^ 90" using assms(5) by simp
    ultimately have "n / 2 ^ 182 \<le> \<bar>c\<bar>" by linarith
    then have "1 / 2 ^ 182 \<le> \<bar>c / n\<bar>" using assms(4) by (simp add: field_simps)
    then have "(1 / 2 ^ 182) * (1 / 2 ^ 90) \<le> \<bar>c / n\<bar> * m"
      using m(1) by (intro mult_mono) simp_all
    then have "1 / 2 ^ 272 \<le> \<bar>c / n\<bar> * m" by simp
    then have "1 / 2 ^ 272 \<le> \<bar>c / n * m\<bar>" by (simp only: g)
    moreover have "\<bar>c / n * m\<bar> \<le> 2 * \<bar>f\<bar>" using assms(7) unfolding c53 by linarith
    ultimately show ?thesis by simp
  qed
  show "safe 300 f"
  proof (cases "c = 0")
    case True
    then have "f = 0" using assms(7) by simp
    then show ?thesis by (simp add: safe_def)
  next
    case False
    then show ?thesis using nz f_up by (simp add: safe_def)
  qed
  show "c \<noteq> 0 \<Longrightarrow> f \<noteq> 0"
  proof -
    assume "c \<noteq> 0"
    then have "1 / 2 ^ 300 \<le> \<bar>f\<bar>" by (rule nz)
    moreover have "(0::real) < 1 / 2 ^ 300" by simp
    ultimately have "0 < \<bar>f\<bar>" by (rule less_le_trans[rotated])
    then show "f \<noteq> 0" by simp
  qed
qed

lemma limit_fl_within: "norm_fl fused a = Some n \<Longrightarrow> n \<le> m \<Longrightarrow> limit_fl fused a m = Some a"
  by (simp add: limit_fl_def)

lemma norm_fl_zero: "norm_fl fused (0, 0) = Some 0"
  by (simp add: norm_fl_def dot_fl_def fl_zero)

lemma relimit_close:
  assumes "safe 300 fx" and "safe 300 fy" and "(fx, fy) \<noteq> (0, 0)" and "safe 300 m" and "0 < m"
    and "vnorm (fx, fy) \<le> m * ((1 + 3 / 2 ^ 53) / ((1 - 1 / 2 ^ 53) * (1 - 1 / 2 ^ 53)))"
  shows "\<exists>g. limit_fl fused (fx, fy) m = Some g \<and>
     \<bar>fst g - fx\<bar> \<le> \<bar>fx\<bar> / 2 ^ 49 \<and> \<bar>snd g - fy\<bar> \<le> \<bar>fy\<bar> / 2 ^ 49"
proof -
  let ?v = "vnorm (fx, fy)"
  have sx: "safe 500 fx" and sy: "safe 500 fy" using assms(1,2) by (simp_all add: safe_mono)
  obtain n where n: "norm_fl fused (fx, fy) = Some n" "0 < n"
      "n \<le> ?v * ((1 + 1 / 2 ^ 53) * (1 + 1 / 2 ^ 53))"
    using norm_fl_accurate[OF sx sy assms(3), of fused] by auto
  show ?thesis
  proof (cases "n \<le> m")
    case True
    then have "limit_fl fused (fx, fy) m = Some (fx, fy)" using n(1) by (rule limit_fl_within[rotated])
    then show ?thesis by simp
  next
    case False
    then have mn: "m < n" by simp
    obtain g where g: "limit_fl fused (fx, fy) m = Some g"
        "\<bar>fst g - fx / n * m\<bar> \<le> 3 / 2 ^ 53 * \<bar>fx / n * m\<bar>"
        "\<bar>snd g - fy / n * m\<bar> \<le> 3 / 2 ^ 53 * \<bar>fy / n * m\<bar>"
      using limit_fl_scaled[OF assms(1-5) n(1) mn] by blast
    have "?v * ((1 + 1 / 2 ^ 53) * (1 + 1 / 2 ^ 53))
        \<le> m * ((1 + 3 / 2 ^ 53) / ((1 - 1 / 2 ^ 53) * (1 - 1 / 2 ^ 53)))
            * ((1 + 1 / 2 ^ 53) * (1 + 1 / 2 ^ 53))"
      using assms(6) by (intro mult_right_mono) simp_all
    then have "n \<le> m * (((1 + 3 / 2 ^ 53) / ((1 - 1 / 2 ^ 53) * (1 - 1 / 2 ^ 53)))
            * ((1 + 1 / 2 ^ 53) * (1 + 1 / 2 ^ 53)))"
      using n(3) by (simp add: mult.assoc)
    moreover have "((1 + 3 / 2 ^ 53) / ((1 - 1 / 2 ^ 53) * (1 - 1 / 2 ^ 53)))
            * ((1 + 1 / 2 ^ 53) * (1 + 1 / 2 ^ 53)) \<le> (1 + 1 / 2 ^ 50 :: real)"
      by simp
    ultimately have "n \<le> m * (1 + 1 / 2 ^ 50)"
      using assms(5) by (meson mult_left_mono less_imp_le order_trans)
    then have rho_lo: "1 - 1 / 2 ^ 50 \<le> m / n"
    proof -
      assume a: "n \<le> m * (1 + 1 / 2 ^ 50)"
      have "n * (1 - 1 / 2 ^ 50) \<le> m * (1 + 1 / 2 ^ 50) * (1 - 1 / 2 ^ 50)"
        using a by (intro mult_right_mono) simp_all
      also have "\<dots> \<le> m" using assms(5) by (simp add: algebra_simps)
      finally show ?thesis using n(2) by (simp add: pos_le_divide_eq algebra_simps)
    qed
    have rho_hi: "m / n \<le> 1" using mn n(2) by simp
    have rho0: "0 \<le> m / n" using assms(5) n(2) by simp
    have close: "\<bar>g' - c\<bar> \<le> \<bar>c\<bar> / 2 ^ 49"
      if h: "\<bar>g' - c / n * m\<bar> \<le> 3 / 2 ^ 53 * \<bar>c / n * m\<bar>" for g' c
    proof -
      have e: "c / n * m = c * (m / n)" by simp
      have a: "\<bar>c * (m / n)\<bar> = \<bar>c\<bar> * (m / n)"
        by (simp only: abs_mult abs_of_nonneg[OF rho0])
      have "\<bar>c\<bar> * (m / n) \<le> \<bar>c\<bar> * 1" using rho_hi by (intro mult_left_mono) simp_all
      then have a1: "\<bar>c\<bar> * (m / n) \<le> \<bar>c\<bar>" by (simp only: mult_1_right)
      have "\<bar>c * (m / n) - c\<bar> = \<bar>c\<bar> * (1 - m / n)"
      proof -
        have "c * (m / n) - c = c * (m / n - 1)" by (simp add: algebra_simps)
        then have "\<bar>c * (m / n) - c\<bar> = \<bar>c\<bar> * \<bar>m / n - 1\<bar>" by (simp only: abs_mult)
        moreover have "\<bar>m / n - 1\<bar> = 1 - m / n" using rho_hi by linarith
        ultimately show ?thesis by (simp only:)
      qed
      also have "\<dots> \<le> \<bar>c\<bar> * (1 / 2 ^ 50)"
      proof -
        have "1 - m / n \<le> 1 / 2 ^ 50" using rho_lo by linarith
        then show ?thesis by (intro mult_left_mono) simp_all
      qed
      finally have "\<bar>c * (m / n) - c\<bar> \<le> \<bar>c\<bar> * (1 / 2 ^ 50)" .
      then have b: "\<bar>c * (m / n) - c\<bar> \<le> \<bar>c\<bar> / 2 ^ 50" by (simp only: times_divide_eq_right mult_1_right)
      have c53: "(2::real) ^ 53 = 9007199254740992" and c50: "(2::real) ^ 50 = 1125899906842624"
        and c49: "(2::real) ^ 49 = 562949953421312" by simp_all
      have "\<bar>g' - c * (m / n)\<bar> \<le> 3 / 2 ^ 53 * \<bar>c\<bar>"
      proof -
        have "3 / 2 ^ 53 * (\<bar>c\<bar> * (m / n)) \<le> 3 / 2 ^ 53 * \<bar>c\<bar>"
          using a1 by (intro mult_left_mono) simp_all
        then show ?thesis using h by (simp only: e a)
      qed
      then show ?thesis using b unfolding c53 c50 c49 by linarith
    qed
    show ?thesis using g(1) close[OF g(2)] close[OF g(3)] by blast
  qed
qed

lemma rel_weaken: "a \<le> 3 / 2 ^ 53 * b \<Longrightarrow> 0 \<le> b \<Longrightarrow> a \<le> b / 2 ^ 51" for a b :: real
  by simp

lemma limit_fl_SomeD:
  assumes "limit_fl fused (x, y) m = Some f"
  shows "\<exists>p0 p1 d n. fl (x * x) = Some p0 \<and>
     (if fused then Some (y * y) else fl (y * y)) = Some p1 \<and>
     fl (p0 + p1) = Some d \<and> fl (sqrt d) = Some n \<and>
     (if n > m
      then n \<noteq> 0 \<and> (\<exists>rx ry. fl (x / n) = Some rx \<and> fl (y / n) = Some ry \<and>
             fl (rx * m) = Some (fst f) \<and> fl (ry * m) = Some (snd f))
      else f = (x, y))"
  using assms
  by (auto simp add: limit_fl_def norm_fl_def dot_fl_def vdiv_fl_def vscale_fl_def
      split: option.splits if_splits)

lemma fl_weak_error:
  assumes "fl z = Some w"
  shows "\<bar>w - z\<bar> \<le> \<bar>z\<bar> / 2 ^ 53 + 1 / 2 ^ 200"
proof -
  have "(1::real) / 2 ^ 1075 \<le> 1 / 2 ^ 200" by simp
  then show ?thesis using fl_error[OF assms] by linarith
qed

lemma fl_below:
  assumes "fl z = Some w" and "0 \<le> z"
  shows "z - z / 2 ^ 53 \<le> w + 1 / 2 ^ 200" and "0 \<le> w"
proof -
  show "z - z / 2 ^ 53 \<le> w + 1 / 2 ^ 200"
    using fl_weak_error[OF assms(1)] assms(2) by (simp add: abs_if split: if_splits)
  show "0 \<le> w" using assms by (rule fl_nonneg[rotated])
qed

lemma product_below:
  assumes "(if fused then Some (c * c) else fl (c * c)) = Some p"
  shows "c * c - c * c / 2 ^ 53 \<le> p + 1 / 2 ^ 200 \<and> 0 \<le> p"
proof (cases fused)
  case True
  then have "p = c * c" using assms by simp
  then show ?thesis by simp
next
  case False
  then have "fl (c * c) = Some p" using assms by simp
  then show ?thesis using fl_below[of "c * c" p] by simp
qed

lemma step_up:
  fixes s t e N T S :: real
  assumes "s - s / 2 ^ 53 \<le> t + e" and "t + e \<le> N * T" and "T \<le> S * (1 - 1 / 2 ^ 53)"
    and "0 \<le> N"
  shows "s \<le> N * S"
proof -
  have "N * T \<le> N * (S * (1 - 1 / 2 ^ 53))" using assms(3,4) by (rule mult_left_mono)
  then have "s * (1 - 1 / 2 ^ 53) \<le> (N * S) * (1 - 1 / 2 ^ 53)"
    using assms(1,2) by (simp add: algebra_simps)
  then show ?thesis by simp
qed

lemma vnorm_triangle: "vnorm (vadd a b) \<le> vnorm a + vnorm b"
  using real_sqrt_sum_squares_triangle_ineq[of "fst a" "fst b" "snd a" "snd b"]
  by (simp add: vnorm_def vadd_def power2_eq_square)

lemma vnorm_mono:
  assumes "\<bar>fst a\<bar> \<le> fst b" and "\<bar>snd a\<bar> \<le> snd b"
  shows "vnorm a \<le> vnorm b"
proof -
  have "fst a * fst a \<le> fst b * fst b" "snd a * snd a \<le> snd b * snd b"
    using square_bounds(2)[of 0 "fst a" "fst b"] square_bounds(2)[of 0 "snd a" "snd b"] assms
    by simp_all
  then show ?thesis unfolding vnorm_def by (intro real_sqrt_le_mono) linarith
qed

lemma vnorm_abs_scaled: "0 \<le> k \<Longrightarrow> vnorm (k * \<bar>fst a\<bar>, k * \<bar>snd a\<bar>) = k * vnorm a"
proof -
  assume k: "0 \<le> k"
  have "vnorm (vscale (\<bar>fst a\<bar>, \<bar>snd a\<bar>) k) = \<bar>k\<bar> * vnorm (\<bar>fst a\<bar>, \<bar>snd a\<bar>)"
    by (rule vnorm_vscale)
  moreover have "vnorm (\<bar>fst a\<bar>, \<bar>snd a\<bar>) = vnorm a" by (simp add: vnorm_def)
  ultimately show ?thesis using k by (simp add: vscale_def mult.commute)
qed

lemma rounded_abs_le:
  assumes "fl z = Some w"
  shows "\<bar>w\<bar> \<le> \<bar>z\<bar> * (1 + 1 / 2 ^ 53) + 1 / 2 ^ 200"
  using fl_weak_error[OF assms] by (simp add: algebra_simps)

lemma add_rounded:
  fixes a b p q e :: real
  assumes "a - a / 2 ^ 53 \<le> p + e" and "b - b / 2 ^ 53 \<le> q + e"
  shows "(a + b) - (a + b) / 2 ^ 53 \<le> (p + q) + 2 * e"
proof -
  have "(a + b) - (a + b) / 2 ^ 53 = (a - a / 2 ^ 53) + (b - b / 2 ^ 53)"
    by (simp add: add_divide_distrib)
  then show ?thesis using assms by linarith
qed

lemma limit_within_bound:
  fixes m :: real
  assumes "n \<le> m" and m: "m = double_0_2"
    and hx: "x * x - x * x / 2 ^ 53 \<le> p0 + 1 / 2 ^ 200"
    and hy: "y * y - y * y / 2 ^ 53 \<le> p1 + 1 / 2 ^ 200"
    and bd: "(p0 + p1) - (p0 + p1) / 2 ^ 53 \<le> d + 1 / 2 ^ 200" and d0: "0 \<le> d"
    and bn: "sqrt d - sqrt d / 2 ^ 53 \<le> n + 1 / 2 ^ 200"
  shows "vnorm (x, y) \<le> double_0_2 * (1 + 1 / 2 ^ 50)"
proof -
  let ?S1 = "double_0_2 * (1 + 1 / 2 ^ 52)"
  let ?S2 = "?S1 * ?S1 * (1 + 1 / 2 ^ 52)"
  let ?S3 = "?S2 * (1 + 1 / 2 ^ 52)"
  have a1: "n + 1 / 2 ^ 200 \<le> 1 * (double_0_2 + 1 / 2 ^ 200)" using assms(1) m by simp
  have a2: "double_0_2 + 1 / 2 ^ 200 \<le> ?S1 * (1 - 1 / 2 ^ 53)"
    by (simp add: double_0_2_def)
  have "sqrt d \<le> 1 * ?S1" using step_up[OF bn a1 a2] by simp
  then have s1: "sqrt d \<le> ?S1" by (simp only: mult_1)
  have S1pos: "0 \<le> ?S1" by (simp add: double_0_2_def)
  have "sqrt d * sqrt d \<le> ?S1 * ?S1"
    using s1 S1pos d0 by (intro mult_mono) simp_all
  then have d1: "d \<le> ?S1 * ?S1" using d0 by simp
  have b1: "d + 1 / 2 ^ 200 \<le> 1 * (?S1 * ?S1 + 1 / 2 ^ 200)" using d1 by simp
  have b2: "?S1 * ?S1 + 1 / 2 ^ 200 \<le> ?S2 * (1 - 1 / 2 ^ 53)"
    by (simp add: double_0_2_def)
  have "p0 + p1 \<le> 1 * ?S2" using step_up[OF bd b1 b2] by simp
  then have s2: "p0 + p1 \<le> ?S2" by (simp only: mult_1)
  have b: "(x * x + y * y) - (x * x + y * y) / 2 ^ 53 \<le> (p0 + p1) + 2 * (1 / 2 ^ 200)"
    using hx hy by (rule add_rounded)
  have c1: "(p0 + p1) + 2 * (1 / 2 ^ 200) \<le> 1 * (?S2 + 2 * (1 / 2 ^ 200))" using s2 by simp
  have c2: "?S2 + 2 * (1 / 2 ^ 200) \<le> ?S3 * (1 - 1 / 2 ^ 53)"
    by (simp add: double_0_2_def)
  have "x * x + y * y \<le> 1 * ?S3" using step_up[OF b c1 c2] by simp
  then have s3: "x * x + y * y \<le> ?S3" by (simp only: mult_1)
  have "?S3 \<le> (double_0_2 * (1 + 1 / 2 ^ 50)) * (double_0_2 * (1 + 1 / 2 ^ 50))"
    by (simp add: double_0_2_def)
  then have "x * x + y * y \<le> (double_0_2 * (1 + 1 / 2 ^ 50)) * (double_0_2 * (1 + 1 / 2 ^ 50))"
    using s3 by (rule order_trans[rotated])
  then show ?thesis unfolding vnorm_def fst_conv snd_conv
    by (intro sqrt_le) (simp_all add: double_0_2_def)
qed

lemma scale_chain:
  fixes F R Q m e :: real
  assumes "F \<le> R * m * (1 + 1 / 2 ^ 53) + e" and "R \<le> Q * (1 + 1 / 2 ^ 53) + e" and "0 \<le> m"
  shows "F \<le> (m * ((1 + 1 / 2 ^ 53) * (1 + 1 / 2 ^ 53))) * Q + (e * m * (1 + 1 / 2 ^ 53) + e)"
proof -
  have "R * (m * (1 + 1 / 2 ^ 53)) \<le> (Q * (1 + 1 / 2 ^ 53) + e) * (m * (1 + 1 / 2 ^ 53))"
    using assms(2,3) by (intro mult_right_mono) simp_all
  then have "R * m * (1 + 1 / 2 ^ 53)
      \<le> (m * ((1 + 1 / 2 ^ 53) * (1 + 1 / 2 ^ 53))) * Q + e * m * (1 + 1 / 2 ^ 53)"
    by (simp add: algebra_simps)
  then show ?thesis using assms(1) by linarith
qed

lemma limit_beyond_bound:
  assumes mn: "double_0_2 < n"
    and hx: "x * x - x * x / 2 ^ 53 \<le> p0 + 1 / 2 ^ 200"
    and hy: "y * y - y * y / 2 ^ 53 \<le> p1 + 1 / 2 ^ 200"
    and bd: "(p0 + p1) - (p0 + p1) / 2 ^ 53 \<le> d + 1 / 2 ^ 200" and d0: "0 \<le> d"
    and bn: "sqrt d - sqrt d / 2 ^ 53 \<le> n + 1 / 2 ^ 200"
    and rx: "\<bar>rx\<bar> \<le> \<bar>x / n\<bar> * (1 + 1 / 2 ^ 53) + 1 / 2 ^ 200"
    and ry: "\<bar>ry\<bar> \<le> \<bar>y / n\<bar> * (1 + 1 / 2 ^ 53) + 1 / 2 ^ 200"
    and fx: "\<bar>f1\<bar> \<le> \<bar>rx * double_0_2\<bar> * (1 + 1 / 2 ^ 53) + 1 / 2 ^ 200"
    and fy: "\<bar>f2\<bar> \<le> \<bar>ry * double_0_2\<bar> * (1 + 1 / 2 ^ 53) + 1 / 2 ^ 200"
  shows "vnorm (f1, f2) \<le> double_0_2 * (1 + 1 / 2 ^ 50)"
proof -
  let ?e = "(1::real) / 2 ^ 200"
  let ?k1 = "(1::real) + 1 / 2 ^ 52"
  let ?k2 = "(1::real) + 7 / 2 ^ 53"
  let ?K = "(1::real) + 9 / 2 ^ 53"
  let ?kap = "(1::real) + 5 / 2 ^ 53"
  let ?al = "double_0_2 * ((1 + 1 / 2 ^ 53) * (1 + 1 / 2 ^ 53))"
  let ?be = "?e * double_0_2 * (1 + 1 / 2 ^ 53) + ?e"
  define N where "N = n * n"
  have m5: "1 / 5 \<le> double_0_2" and m0: "0 \<le> double_0_2" by (simp_all add: double_0_2_def)
  have n5: "1 \<le> 5 * n" using mn m5 by linarith
  have n0: "0 < n" using n5 by linarith
  have N25: "1 \<le> 25 * N"
  proof -
    have "1 * 1 \<le> (5 * n) * (5 * n)" using n5 by (intro mult_mono) simp_all
    then show ?thesis by (simp add: N_def)
  qed
  have N0: "0 \<le> N" by (simp add: N_def)
  have a1: "n + ?e \<le> n * (1 + 5 * ?e)" using n5 by (simp add: algebra_simps)
  have a2: "1 + 5 * ?e \<le> ?k1 * (1 - 1 / 2 ^ 53)" by simp
  have s1: "sqrt d \<le> n * ?k1" using step_up[OF bn a1 a2] n0 by simp
  have "sqrt d * sqrt d \<le> (n * ?k1) * (n * ?k1)"
    using s1 d0 n0 by (intro mult_mono) simp_all
  then have d1: "d \<le> N * (?k1 * ?k1)" using d0 by (simp add: N_def algebra_simps)
  have b1: "d + ?e \<le> N * (?k1 * ?k1 + 25 * ?e)" using d1 N25 by (simp add: algebra_simps)
  have b2: "?k1 * ?k1 + 25 * ?e \<le> ?k2 * (1 - 1 / 2 ^ 53)" by simp
  have s2: "p0 + p1 \<le> N * ?k2" using step_up[OF bd b1 b2 N0] .
  have c: "(x * x + y * y) - (x * x + y * y) / 2 ^ 53 \<le> (p0 + p1) + 2 * ?e"
    using hx hy by (rule add_rounded)
  have c1: "(p0 + p1) + 2 * ?e \<le> N * (?k2 + 50 * ?e)" using s2 N25 by (simp add: algebra_simps)
  have c2: "?k2 + 50 * ?e \<le> ?K * (1 - 1 / 2 ^ 53)" by simp
  have s3: "x * x + y * y \<le> N * ?K" using step_up[OF c c1 c2 N0] .
  have "N * ?K \<le> N * (?kap * ?kap)" using N0 by (intro mult_left_mono) simp_all
  with s3 have "x * x + y * y \<le> N * (?kap * ?kap)" by (rule order_trans)
  moreover have "N * (?kap * ?kap) = (n * ?kap) * (n * ?kap)"
    unfolding N_def by (simp only: mult.assoc mult.left_commute)
  ultimately have "x * x + y * y \<le> (n * ?kap) * (n * ?kap)" by (simp only:)
  then have v: "vnorm (x, y) \<le> n * ?kap"
    unfolding vnorm_def fst_conv snd_conv using n0 by (intro sqrt_le) simp_all
  have q: "vnorm (x / n, y / n) \<le> ?kap"
  proof -
    have "vnorm (x / n, y / n) = vnorm (x, y) / n"
      using vnorm_quot[of "(x, y)" n] n0 by simp
    also have "\<dots> \<le> (n * ?kap) / n" using v n0 by (intro divide_right_mono) simp_all
    also have "\<dots> = ?kap" using n0 by simp
    finally show ?thesis .
  qed
  have fx': "\<bar>f1\<bar> \<le> \<bar>rx\<bar> * double_0_2 * (1 + 1 / 2 ^ 53) + ?e"
    using fx m0 by (simp add: abs_mult)
  have fy': "\<bar>f2\<bar> \<le> \<bar>ry\<bar> * double_0_2 * (1 + 1 / 2 ^ 53) + ?e"
    using fy m0 by (simp add: abs_mult)
  have gx: "\<bar>f1\<bar> \<le> ?al * \<bar>x / n\<bar> + ?be" using scale_chain[OF fx' rx m0] .
  have gy: "\<bar>f2\<bar> \<le> ?al * \<bar>y / n\<bar> + ?be" using scale_chain[OF fy' ry m0] .
  have al0: "0 \<le> ?al" and be0: "0 \<le> ?be" using m0 by simp_all
  have "vnorm (f1, f2) \<le> vnorm (?al * \<bar>x / n\<bar> + ?be, ?al * \<bar>y / n\<bar> + ?be)"
    using gx gy by (intro vnorm_mono) simp_all
  also have "\<dots> = vnorm (vadd (?al * \<bar>fst (x / n, y / n)\<bar>, ?al * \<bar>snd (x / n, y / n)\<bar>) (?be, ?be))"
    by (simp add: vadd_def)
  also have "\<dots> \<le> vnorm (?al * \<bar>fst (x / n, y / n)\<bar>, ?al * \<bar>snd (x / n, y / n)\<bar>) + vnorm (?be, ?be)"
    by (rule vnorm_triangle)
  also have "\<dots> = ?al * vnorm (x / n, y / n) + vnorm (?be, ?be)"
    by (simp only: vnorm_abs_scaled[OF al0])
  also have "\<dots> \<le> ?al * ?kap + 2 * ?be"
  proof -
    have "?al * vnorm (x / n, y / n) \<le> ?al * ?kap" using q al0 by (rule mult_left_mono)
    moreover have "vnorm (?be, ?be) \<le> 2 * ?be"
      using vnorm_le_sum[of "(?be, ?be)"] be0 by simp
    ultimately show ?thesis by linarith
  qed
  also have "\<dots> \<le> double_0_2 * (1 + 1 / 2 ^ 50)" by (simp add: double_0_2_def)
  finally show ?thesis .
qed

lemma limit_0_2_bound:
  assumes "limit_fl fused w double_0_2 = Some f"
  shows "vnorm f \<le> double_0_2 * (1 + 1 / 2 ^ 50)"
proof -
  obtain x y where w: "w = (x, y)" by (cases w)
  obtain p0 p1 d n where s: "fl (x * x) = Some p0"
      "(if fused then Some (y * y) else fl (y * y)) = Some p1"
      "fl (p0 + p1) = Some d" "fl (sqrt d) = Some n"
      "if n > double_0_2
       then n \<noteq> 0 \<and> (\<exists>rx ry. fl (x / n) = Some rx \<and> fl (y / n) = Some ry \<and>
             fl (rx * double_0_2) = Some (fst f) \<and> fl (ry * double_0_2) = Some (snd f))
       else f = (x, y)"
    using limit_fl_SomeD[of fused x y double_0_2 f] assms w by blast
  have hx: "x * x - x * x / 2 ^ 53 \<le> p0 + 1 / 2 ^ 200" and p0: "0 \<le> p0"
    using fl_below[OF s(1)] by simp_all
  have hy: "y * y - y * y / 2 ^ 53 \<le> p1 + 1 / 2 ^ 200" and p1: "0 \<le> p1"
    using product_below[OF s(2)] by simp_all
  have bd: "(p0 + p1) - (p0 + p1) / 2 ^ 53 \<le> d + 1 / 2 ^ 200" and d0: "0 \<le> d"
    using fl_below[OF s(3)] p0 p1 by simp_all
  have bn: "sqrt d - sqrt d / 2 ^ 53 \<le> n + 1 / 2 ^ 200"
    using fl_below(1)[OF s(4)] d0 by simp
  show ?thesis
  proof (cases "n > double_0_2")
    case True
    then obtain rx ry where r: "fl (x / n) = Some rx" "fl (y / n) = Some ry"
        "fl (rx * double_0_2) = Some (fst f)" "fl (ry * double_0_2) = Some (snd f)"
      using s(5) by auto
    have "vnorm (fst f, snd f) \<le> double_0_2 * (1 + 1 / 2 ^ 50)"
      using True hx hy bd d0 bn rounded_abs_le[OF r(1)] rounded_abs_le[OF r(2)]
        rounded_abs_le[OF r(3)] rounded_abs_le[OF r(4)]
      by (rule limit_beyond_bound)
    then show ?thesis by simp
  next
    case False
    then have f: "f = (x, y)" and le: "n \<le> double_0_2" using s(5) by simp_all
    show ?thesis unfolding f using le refl hx hy bd d0 bn by (rule limit_within_bound)
  qed
qed

lemma separation_force_fl_bound:
  assumes "separation_force_fl fused p self acc = Some f"
  shows "vnorm f \<le> double_0_2 * (1 + 1 / 2 ^ 50)"
proof -
  obtain steer where "limit_fl fused steer double_0_2 = Some f"
    using assms by (auto simp add: separation_force_fl_def split: option.splits)
  then show ?thesis by (rule limit_0_2_bound)
qed

lemma alignment_force_fl_bound:
  assumes "alignment_force_fl fused p self acc = Some f"
  shows "vnorm f \<le> double_0_2 * (1 + 1 / 2 ^ 50)"
proof -
  obtain steer where "limit_fl fused steer double_0_2 = Some f"
    using assms by (auto simp add: alignment_force_fl_def split: option.splits)
  then show ?thesis by (rule limit_0_2_bound)
qed

lemma cohesion_force_fl_bound:
  assumes "cohesion_force_fl fused p self acc = Some f"
  shows "vnorm f \<le> double_0_2 * (1 + 1 / 2 ^ 50)"
proof -
  obtain steer where "limit_fl fused steer double_0_2 = Some f"
    using assms by (auto simp add: cohesion_force_fl_def split: option.splits)
  then show ?thesis by (rule limit_0_2_bound)
qed

lemma fl_bounded:
  assumes "\<bar>z\<bar> \<le> b" and "b \<le> 2 ^ 1022"
  shows "\<exists>w. fl z = Some w \<and> \<bar>w\<bar> \<le> 2 * b + 1"
proof -
  have "\<bar>z\<bar> \<le> 2 powi 1023" using assms by simp
  then obtain w where w: "fl z = Some w" using fl_defined by blast
  have "\<bar>w\<bar> \<le> \<bar>z\<bar> * (1 + 1 / 2 ^ 53) + 1 / 2 ^ 200" using w by (rule rounded_abs_le)
  moreover have "\<bar>z\<bar> * (1 + 1 / 2 ^ 53) \<le> \<bar>z\<bar> * 2" by (intro mult_left_mono) simp_all
  moreover have "(1::real) / 2 ^ 200 \<le> 1" by simp
  ultimately have "\<bar>w\<bar> \<le> 2 * b + 1" using assms(1) by linarith
  then show ?thesis using w by blast
qed

lemma limit_0_2_defined:
  assumes "\<bar>fst w\<bar> \<le> 2 ^ 500" and "\<bar>snd w\<bar> \<le> 2 ^ 500"
  shows "\<exists>f. limit_fl fused w double_0_2 = Some f"
proof -
  obtain x y where w: "w = (x, y)" by (cases w)
  have x: "\<bar>x\<bar> \<le> 2 ^ 500" and y: "\<bar>y\<bar> \<le> 2 ^ 500" using assms w by simp_all
  have xx: "\<bar>x * x\<bar> \<le> 2 ^ 1000" and yy: "\<bar>y * y\<bar> \<le> 2 ^ 1000"
    using square_bounds(2)[of 0 x "2 ^ 500"] square_bounds(2)[of 0 y "2 ^ 500"] x y by simp_all
  obtain p0 where p0: "fl (x * x) = Some p0" "\<bar>p0\<bar> \<le> 2 * 2 ^ 1000 + 1"
    using fl_bounded[OF xx] by auto
  obtain p1 where p1: "(if fused then Some (y * y) else fl (y * y)) = Some p1"
      "\<bar>p1\<bar> \<le> 2 * 2 ^ 1000 + 1"
  proof (cases fused)
    case True
    then show ?thesis using that[of "y * y"] yy by simp
  next
    case False
    then show ?thesis using that fl_bounded[OF yy] by auto
  qed
  have t: "\<bar>p0 + p1\<bar> \<le> \<bar>p0\<bar> + \<bar>p1\<bar>" by (rule abs_triangle_ineq)
  have c: "(2 * 2 ^ 1000 + 1) + (2 * 2 ^ 1000 + 1) \<le> (2::real) ^ 1003" by simp
  have "\<bar>p0 + p1\<bar> \<le> 2 ^ 1003" using t p0(2) p1(2) c by linarith
  then obtain d where d: "fl (p0 + p1) = Some d" "\<bar>d\<bar> \<le> 2 * 2 ^ 1003 + 1"
    using fl_bounded[of "p0 + p1" "2 ^ 1003"] by auto
  have p0n: "0 \<le> p0" using fl_nonneg[OF _ p0(1)] by simp
  have p1n: "0 \<le> p1" using product_below[OF p1(1)] by simp
  have d0: "0 \<le> d" using fl_nonneg[OF _ d(1)] p0n p1n by simp
  have "sqrt d \<le> 2 ^ 503"
  proof (rule sqrt_le)
    show "d \<le> 2 ^ 503 * (2 ^ 503 :: real)" using d(2) by simp
  qed simp
  moreover have "0 \<le> sqrt d" using d0 by simp
  ultimately have "\<bar>sqrt d\<bar> \<le> 2 ^ 503" by simp
  then obtain n where n: "fl (sqrt d) = Some n"
    using fl_bounded[of "sqrt d" "2 ^ 503"] by auto
  show ?thesis
  proof (cases "n > double_0_2")
    case False
    then show ?thesis using p0(1) p1(1) d(1) n w
      by (cases fused) (simp_all add: limit_fl_def norm_fl_def dot_fl_def)
  next
    case True
    have m5: "1 / 5 \<le> double_0_2" by (simp add: double_0_2_def)
    then have n5: "1 \<le> 5 * n" and n0: "0 < n" using True by linarith+
    have q: "\<bar>c / n\<bar> \<le> 2 ^ 503" if "\<bar>c\<bar> \<le> 2 ^ 500" for c
    proof -
      have "\<bar>c\<bar> * 1 \<le> 2 ^ 500 * (5 * n)" using that n5 by (intro mult_mono) simp_all
      then have "\<bar>c\<bar> \<le> 2 ^ 503 * n" by simp
      then show ?thesis using n0 by (simp add: field_simps)
    qed
    obtain rx where rx: "fl (x / n) = Some rx" "\<bar>rx\<bar> \<le> 2 * 2 ^ 503 + 1"
      using fl_bounded[OF q[OF x]] by auto
    obtain ry where ry: "fl (y / n) = Some ry" "\<bar>ry\<bar> \<le> 2 * 2 ^ 503 + 1"
      using fl_bounded[OF q[OF y]] by auto
    have s: "\<bar>r * double_0_2\<bar> \<le> 2 ^ 505" if "\<bar>r\<bar> \<le> 2 * 2 ^ 503 + 1" for r
    proof -
      have "\<bar>r\<bar> * double_0_2 \<le> (2 * 2 ^ 503 + 1) * 1"
        using that by (intro mult_mono) (simp_all add: double_0_2_def)
      then show ?thesis by (simp add: abs_mult double_0_2_def)
    qed
    obtain fx where fx: "fl (rx * double_0_2) = Some fx"
      using fl_bounded[OF s[OF rx(2)]] by auto
    obtain fy where fy: "fl (ry * double_0_2) = Some fy"
      using fl_bounded[OF s[OF ry(2)]] by auto
    show ?thesis using p0(1) p1(1) d(1) n w True n0 rx(1) ry(1) fx fy
      by (cases fused)
        (simp_all add: limit_fl_def norm_fl_def dot_fl_def vdiv_fl_def vscale_fl_def)
  qed
qed

subsection \<open>Rounding at the concrete inputs\<close>

lemma fl_step_1:
  assumes "x = 1"
  shows "fl x = Some 1"
proof -
  have e: "fl 1 = Some (of_int 4503599627370496 * (1 / 2 ^ 52))"
    by (intro fl_eval[where e = "0"]) simp_all
  have v: "of_int 4503599627370496 * (1 / 2 ^ 52) = (1::real)" by simp
  show ?thesis using e by (simp only: assms v)
qed

lemma fl_step_2:
  assumes "x = 2"
  shows "fl x = Some 2"
proof -
  have e: "fl 2 = Some (of_int 4503599627370496 * (1 / 2 ^ 51))"
    by (intro fl_eval[where e = "1"]) simp_all
  have v: "of_int 4503599627370496 * (1 / 2 ^ 51) = (2::real)" by simp
  show ?thesis using e by (simp only: assms v)
qed

lemma fl_step_3:
  assumes "d = 2"
  shows "fl (sqrt d) = Some (6369051672525773 / 2 ^ 52)"
proof -
  have b: "(6369051672525773 - 1 / 2) * (1 / 2 ^ 52) < sqrt 2 \<and> sqrt 2 < (6369051672525773 + 1 / 2) * (1 / 2 ^ 52)"
    by (rule sqrt_between) simp_all
  have e: "fl (sqrt 2) = Some (of_int 6369051672525773 * (1 / 2 ^ 52))"
    using b by (intro fl_eval[where e = "0"]) (simp_all add: abs_if field_simps)
  have v: "of_int 6369051672525773 * (1 / 2 ^ 52) = (6369051672525773 / 2 ^ 52::real)" by simp
  show ?thesis using e by (simp only: assms v)
qed

lemma fl_step_4:
  assumes "x = 4503599627370496 / 6369051672525773"
  shows "fl x = Some (1592262918131443 / 2 ^ 51)"
proof -
  have e: "fl (4503599627370496 / 6369051672525773) = Some (of_int 6369051672525772 * (1 / 2 ^ 53))"
    by (intro fl_eval[where e = "-1"]) simp_all
  have v: "of_int 6369051672525772 * (1 / 2 ^ 53) = (1592262918131443 / 2 ^ 51::real)" by simp
  show ?thesis using e by (simp only: assms v)
qed

lemma fl_step_5:
  assumes "x = 400"
  shows "fl x = Some 400"
proof -
  have e: "fl 400 = Some (of_int 7036874417766400 * (1 / 2 ^ 44))"
    by (intro fl_eval[where e = "8"]) simp_all
  have v: "of_int 7036874417766400 * (1 / 2 ^ 44) = (400::real)" by simp
  show ?thesis using e by (simp only: assms v)
qed

lemma fl_step_6:
  assumes "x = 256"
  shows "fl x = Some 256"
proof -
  have e: "fl 256 = Some (of_int 4503599627370496 * (1 / 2 ^ 44))"
    by (intro fl_eval[where e = "8"]) simp_all
  have v: "of_int 4503599627370496 * (1 / 2 ^ 44) = (256::real)" by simp
  show ?thesis using e by (simp only: assms v)
qed

lemma fl_step_7:
  assumes "x = 656"
  shows "fl x = Some 656"
proof -
  have e: "fl 656 = Some (of_int 5770237022568448 * (1 / 2 ^ 43))"
    by (intro fl_eval[where e = "9"]) simp_all
  have v: "of_int 5770237022568448 * (1 / 2 ^ 43) = (656::real)" by simp
  show ?thesis using e by (simp only: assms v)
qed

lemma fl_step_8:
  assumes "d = 656"
  shows "fl (sqrt d) = Some (28161238212607 / 2 ^ 40)"
proof -
  have b: "(7209276982427392 - 1 / 2) * (1 / 2 ^ 48) < sqrt 656 \<and> sqrt 656 < (7209276982427392 + 1 / 2) * (1 / 2 ^ 48)"
    by (rule sqrt_between) simp_all
  have e: "fl (sqrt 656) = Some (of_int 7209276982427392 * (1 / 2 ^ 48))"
    using b by (intro fl_eval[where e = "4"]) (simp_all add: abs_if field_simps)
  have v: "of_int 7209276982427392 * (1 / 2 ^ 48) = (28161238212607 / 2 ^ 40::real)" by simp
  show ?thesis using e by (simp only: assms v)
qed

lemma fl_step_9:
  assumes "x = - 21990232555520 / 28161238212607"
  shows "fl x = Some (- 7033440958465749 / 2 ^ 53)"
proof -
  have e: "fl (- 21990232555520 / 28161238212607) = Some (of_int (-7033440958465749) * (1 / 2 ^ 53))"
    by (intro fl_eval[where e = "-1"]) simp_all
  have v: "of_int (-7033440958465749) * (1 / 2 ^ 53) = (- 7033440958465749 / 2 ^ 53::real)" by simp
  show ?thesis using e by (simp only: assms v)
qed

lemma fl_step_10:
  assumes "x = - 17592186044416 / 28161238212607"
  shows "fl x = Some (- 5626752766772599 / 2 ^ 53)"
proof -
  have e: "fl (- 17592186044416 / 28161238212607) = Some (of_int (-5626752766772599) * (1 / 2 ^ 53))"
    by (intro fl_eval[where e = "-1"]) simp_all
  have v: "of_int (-5626752766772599) * (1 / 2 ^ 53) = (- 5626752766772599 / 2 ^ 53::real)" by simp
  show ?thesis using e by (simp only: assms v)
qed

lemma fl_step_11:
  assumes "x = - 25340641663742986550706871006353 / 2 ^ 107"
  shows "fl x = Some (- 703344095846575 / 2 ^ 52)"
proof -
  have e: "fl (- 25340641663742986550706871006353 / 2 ^ 107) = Some (of_int (-5626752766772600) * (1 / 2 ^ 55))"
    by (intro fl_eval[where e = "-3"]) simp_all
  have v: "of_int (-5626752766772600) * (1 / 2 ^ 55) = (- 703344095846575 / 2 ^ 52::real)" by simp
  show ?thesis using e by (simp only: assms v)
qed

lemma fl_step_12:
  assumes "x = - 20272513330994388519989556425803 / 2 ^ 107"
  shows "fl x = Some (- 9002804426836159 / 2 ^ 56)"
proof -
  have e: "fl (- 20272513330994388519989556425803 / 2 ^ 107) = Some (of_int (-9002804426836159) * (1 / 2 ^ 56))"
    by (intro fl_eval[where e = "-4"]) simp_all
  have v: "of_int (-9002804426836159) * (1 / 2 ^ 56) = (- 9002804426836159 / 2 ^ 56::real)" by simp
  show ?thesis using e by (simp only: assms v)
qed

lemma fl_step_13:
  assumes "x = 494692917162236080165939230625 / 2 ^ 104"
  shows "fl x = Some (7030009174431997 / 2 ^ 58)"
proof -
  have e: "fl (494692917162236080165939230625 / 2 ^ 104) = Some (of_int 7030009174431997 * (1 / 2 ^ 58))"
    by (intro fl_eval[where e = "-6"]) simp_all
  have v: "of_int 7030009174431997 * (1 / 2 ^ 58) = (7030009174431997 / 2 ^ 58::real)" by simp
  show ?thesis using e by (simp only: assms v)
qed

lemma fl_step_14:
  assumes "x = 81050487547860741368778629873281 / 2 ^ 112"
  shows "fl x = Some (4499205871636477 / 2 ^ 58)"
proof -
  have e: "fl (81050487547860741368778629873281 / 2 ^ 112) = Some (of_int 8998411743272954 * (1 / 2 ^ 59))"
    by (intro fl_eval[where e = "-7"]) simp_all
  have v: "of_int 8998411743272954 * (1 / 2 ^ 59) = (4499205871636477 / 2 ^ 58::real)" by simp
  show ?thesis using e by (simp only: assms v)
qed

lemma fl_step_15:
  assumes "x = 5764607523034237 / 2 ^ 57"
  shows "fl x = Some (5764607523034237 / 2 ^ 57)"
proof -
  have e: "fl (5764607523034237 / 2 ^ 57) = Some (of_int 5764607523034237 * (1 / 2 ^ 57))"
    by (intro fl_eval[where e = "-5"]) simp_all
  have v: "of_int 5764607523034237 * (1 / 2 ^ 57) = (5764607523034237 / 2 ^ 57::real)" by simp
  show ?thesis using e by (simp only: assms v)
qed

lemma fl_step_16:
  assumes "d = 5764607523034237 / 2 ^ 57"
  shows "fl (sqrt d) = Some (7205759403792795 / 2 ^ 55)"
proof -
  have b: "(7205759403792795 - 1 / 2) * (1 / 2 ^ 55) < sqrt (5764607523034237 / 2 ^ 57) \<and> sqrt (5764607523034237 / 2 ^ 57) < (7205759403792795 + 1 / 2) * (1 / 2 ^ 55)"
    by (rule sqrt_between) simp_all
  have e: "fl (sqrt (5764607523034237 / 2 ^ 57)) = Some (of_int 7205759403792795 * (1 / 2 ^ 55))"
    using b by (intro fl_eval[where e = "-3"]) (simp_all add: abs_if field_simps)
  have v: "of_int 7205759403792795 * (1 / 2 ^ 55) = (7205759403792795 / 2 ^ 55::real)" by simp
  show ?thesis using e by (simp only: assms v)
qed

lemma fl_step_17:
  assumes "x = - 1125350553354520 / 1441151880758559"
  shows "fl x = Some (- 7033440958465749 / 2 ^ 53)"
proof -
  have e: "fl (- 1125350553354520 / 1441151880758559) = Some (of_int (-7033440958465749) * (1 / 2 ^ 53))"
    by (intro fl_eval[where e = "-1"]) simp_all
  have v: "of_int (-7033440958465749) * (1 / 2 ^ 53) = (- 7033440958465749 / 2 ^ 53::real)" by simp
  show ?thesis using e by (simp only: assms v)
qed

lemma fl_step_18:
  assumes "x = - 9002804426836159 / 14411518807585590"
  shows "fl x = Some (- 2813376383386299 / 2 ^ 52)"
proof -
  have e: "fl (- 9002804426836159 / 14411518807585590) = Some (of_int (-5626752766772598) * (1 / 2 ^ 53))"
    by (intro fl_eval[where e = "-1"]) simp_all
  have v: "of_int (-5626752766772598) * (1 / 2 ^ 53) = (- 2813376383386299 / 2 ^ 52::real)" by simp
  show ?thesis using e by (simp only: assms v)
qed

lemma fl_step_19:
  assumes "x = - 10136256665497192458554927264703 / 2 ^ 106"
  shows "fl x = Some (- 9002804426836157 / 2 ^ 56)"
proof -
  have e: "fl (- 10136256665497192458554927264703 / 2 ^ 106) = Some (of_int (-9002804426836157) * (1 / 2 ^ 56))"
    by (intro fl_eval[where e = "-4"]) simp_all
  have v: "of_int (-9002804426836157) * (1 / 2 ^ 56) = (- 9002804426836157 / 2 ^ 56::real)" by simp
  show ?thesis using e by (simp only: assms v)
qed

lemma fl_step_20:
  assumes "x = - 5 / 2 ^ 1"
  shows "fl x = Some (- 5 / 2 ^ 1)"
proof -
  have e: "fl (- 5 / 2 ^ 1) = Some (of_int (-5629499534213120) * (1 / 2 ^ 51))"
    by (intro fl_eval[where e = "1"]) simp_all
  have v: "of_int (-5629499534213120) * (1 / 2 ^ 51) = (- 5 / 2 ^ 1::real)" by simp
  show ?thesis using e by (simp only: assms v)
qed

lemma fl_step_21:
  assumes "x = - 2"
  shows "fl x = Some (- 2)"
proof -
  have e: "fl (- 2) = Some (of_int (-4503599627370496) * (1 / 2 ^ 51))"
    by (intro fl_eval[where e = "1"]) simp_all
  have v: "of_int (-4503599627370496) * (1 / 2 ^ 51) = (- 2::real)" by simp
  show ?thesis using e by (simp only: assms v)
qed

lemma fl_step_22:
  assumes "x = 25 / 2 ^ 2"
  shows "fl x = Some (25 / 2 ^ 2)"
proof -
  have e: "fl (25 / 2 ^ 2) = Some (of_int 7036874417766400 * (1 / 2 ^ 50))"
    by (intro fl_eval[where e = "2"]) simp_all
  have v: "of_int 7036874417766400 * (1 / 2 ^ 50) = (25 / 2 ^ 2::real)" by simp
  show ?thesis using e by (simp only: assms v)
qed

lemma fl_step_23:
  assumes "x = 4"
  shows "fl x = Some 4"
proof -
  have e: "fl 4 = Some (of_int 4503599627370496 * (1 / 2 ^ 50))"
    by (intro fl_eval[where e = "2"]) simp_all
  have v: "of_int 4503599627370496 * (1 / 2 ^ 50) = (4::real)" by simp
  show ?thesis using e by (simp only: assms v)
qed

lemma fl_step_24:
  assumes "x = 41 / 2 ^ 2"
  shows "fl x = Some (41 / 2 ^ 2)"
proof -
  have e: "fl (41 / 2 ^ 2) = Some (of_int 5770237022568448 * (1 / 2 ^ 49))"
    by (intro fl_eval[where e = "3"]) simp_all
  have v: "of_int 5770237022568448 * (1 / 2 ^ 49) = (41 / 2 ^ 2::real)" by simp
  show ?thesis using e by (simp only: assms v)
qed

lemma fl_step_25:
  assumes "d = 41 / 2 ^ 2"
  shows "fl (sqrt d) = Some (28161238212607 / 2 ^ 43)"
proof -
  have b: "(7209276982427392 - 1 / 2) * (1 / 2 ^ 51) < sqrt (41 / 2 ^ 2) \<and> sqrt (41 / 2 ^ 2) < (7209276982427392 + 1 / 2) * (1 / 2 ^ 51)"
    by (rule sqrt_between) simp_all
  have e: "fl (sqrt (41 / 2 ^ 2)) = Some (of_int 7209276982427392 * (1 / 2 ^ 51))"
    using b by (intro fl_eval[where e = "1"]) (simp_all add: abs_if field_simps)
  have v: "of_int 7209276982427392 * (1 / 2 ^ 51) = (28161238212607 / 2 ^ 43::real)" by simp
  show ?thesis using e by (simp only: assms v)
qed

lemma fl_step_26:
  assumes "x = 207691874341393180989400534515329 / 2 ^ 112"
  shows "fl x = Some (5764607523034237 / 2 ^ 57)"
proof -
  have e: "fl (207691874341393180989400534515329 / 2 ^ 112) = Some (of_int 5764607523034237 * (1 / 2 ^ 57))"
    by (intro fl_eval[where e = "-5"]) simp_all
  have v: "of_int 5764607523034237 * (1 / 2 ^ 57) = (5764607523034237 / 2 ^ 57::real)" by simp
  show ?thesis using e by (simp only: assms v)
qed

lemma fl_step_27:
  assumes "x = 5 / 2 ^ 1"
  shows "fl x = Some (5 / 2 ^ 1)"
proof -
  have e: "fl (5 / 2 ^ 1) = Some (of_int 5629499534213120 * (1 / 2 ^ 51))"
    by (intro fl_eval[where e = "1"]) simp_all
  have v: "of_int 5629499534213120 * (1 / 2 ^ 51) = (5 / 2 ^ 1::real)" by simp
  show ?thesis using e by (simp only: assms v)
qed

lemma fl_step_28:
  assumes "x = 21990232555520 / 28161238212607"
  shows "fl x = Some (7033440958465749 / 2 ^ 53)"
proof -
  have e: "fl (21990232555520 / 28161238212607) = Some (of_int 7033440958465749 * (1 / 2 ^ 53))"
    by (intro fl_eval[where e = "-1"]) simp_all
  have v: "of_int 7033440958465749 * (1 / 2 ^ 53) = (7033440958465749 / 2 ^ 53::real)" by simp
  show ?thesis using e by (simp only: assms v)
qed

lemma fl_step_29:
  assumes "x = 17592186044416 / 28161238212607"
  shows "fl x = Some (5626752766772599 / 2 ^ 53)"
proof -
  have e: "fl (17592186044416 / 28161238212607) = Some (of_int 5626752766772599 * (1 / 2 ^ 53))"
    by (intro fl_eval[where e = "-1"]) simp_all
  have v: "of_int 5626752766772599 * (1 / 2 ^ 53) = (5626752766772599 / 2 ^ 53::real)" by simp
  show ?thesis using e by (simp only: assms v)
qed

lemma fl_step_30:
  assumes "x = 7033440958465749 / 2 ^ 51"
  shows "fl x = Some (7033440958465749 / 2 ^ 51)"
proof -
  have e: "fl (7033440958465749 / 2 ^ 51) = Some (of_int 7033440958465749 * (1 / 2 ^ 51))"
    by (intro fl_eval[where e = "1"]) simp_all
  have v: "of_int 7033440958465749 * (1 / 2 ^ 51) = (7033440958465749 / 2 ^ 51::real)" by simp
  show ?thesis using e by (simp only: assms v)
qed

lemma fl_step_31:
  assumes "x = 5626752766772599 / 2 ^ 51"
  shows "fl x = Some (5626752766772599 / 2 ^ 51)"
proof -
  have e: "fl (5626752766772599 / 2 ^ 51) = Some (of_int 5626752766772599 * (1 / 2 ^ 51))"
    by (intro fl_eval[where e = "1"]) simp_all
  have v: "of_int 5626752766772599 * (1 / 2 ^ 51) = (5626752766772599 / 2 ^ 51::real)" by simp
  show ?thesis using e by (simp only: assms v)
qed

lemma fl_step_32:
  assumes "x = 1403941424252629 / 2 ^ 51"
  shows "fl x = Some (1403941424252629 / 2 ^ 51)"
proof -
  have e: "fl (1403941424252629 / 2 ^ 51) = Some (of_int 5615765697010516 * (1 / 2 ^ 53))"
    by (intro fl_eval[where e = "-1"]) simp_all
  have v: "of_int 5615765697010516 * (1 / 2 ^ 53) = (1403941424252629 / 2 ^ 51::real)" by simp
  show ?thesis using e by (simp only: assms v)
qed

lemma fl_step_33:
  assumes "x = 1123153139402103 / 2 ^ 51"
  shows "fl x = Some (1123153139402103 / 2 ^ 51)"
proof -
  have e: "fl (1123153139402103 / 2 ^ 51) = Some (of_int 8985225115216824 * (1 / 2 ^ 54))"
    by (intro fl_eval[where e = "-2"]) simp_all
  have v: "of_int 8985225115216824 * (1 / 2 ^ 54) = (1123153139402103 / 2 ^ 51::real)" by simp
  show ?thesis using e by (simp only: assms v)
qed

lemma fl_step_34:
  assumes "x = 1971051522732500412071213411641 / 2 ^ 102"
  shows "fl x = Some (7002581706432311 / 2 ^ 54)"
proof -
  have e: "fl (1971051522732500412071213411641 / 2 ^ 102) = Some (of_int 7002581706432311 * (1 / 2 ^ 54))"
    by (intro fl_eval[where e = "-2"]) simp_all
  have v: "of_int 7002581706432311 * (1 / 2 ^ 54) = (7002581706432311 / 2 ^ 54::real)" by simp
  show ?thesis using e by (simp only: assms v)
qed

lemma fl_step_35:
  assumes "x = 1261472974548799814464320822609 / 2 ^ 102"
  shows "fl x = Some (8963304584233355 / 2 ^ 55)"
proof -
  have e: "fl (1261472974548799814464320822609 / 2 ^ 102) = Some (of_int 8963304584233355 * (1 / 2 ^ 55))"
    by (intro fl_eval[where e = "-3"]) simp_all
  have v: "of_int 8963304584233355 * (1 / 2 ^ 55) = (8963304584233355 / 2 ^ 55::real)" by simp
  show ?thesis using e by (simp only: assms v)
qed

lemma fl_step_36:
  assumes "x = 22968467997097977 / 2 ^ 55"
  shows "fl x = Some (2871058499637247 / 2 ^ 52)"
proof -
  have e: "fl (22968467997097977 / 2 ^ 55) = Some (of_int 5742116999274494 * (1 / 2 ^ 53))"
    by (intro fl_eval[where e = "-1"]) simp_all
  have v: "of_int 5742116999274494 * (1 / 2 ^ 53) = (2871058499637247 / 2 ^ 52::real)" by simp
  show ?thesis using e by (simp only: assms v)
qed

lemma fl_step_37:
  assumes "d = 2871058499637247 / 2 ^ 52"
  shows "fl (sqrt d) = Some (3595844544627201 / 2 ^ 52)"
proof -
  have b: "(7191689089254402 - 1 / 2) * (1 / 2 ^ 53) < sqrt (2871058499637247 / 2 ^ 52) \<and> sqrt (2871058499637247 / 2 ^ 52) < (7191689089254402 + 1 / 2) * (1 / 2 ^ 53)"
    by (rule sqrt_between) simp_all
  have e: "fl (sqrt (2871058499637247 / 2 ^ 52)) = Some (of_int 7191689089254402 * (1 / 2 ^ 53))"
    using b by (intro fl_eval[where e = "-1"]) (simp_all add: abs_if field_simps)
  have v: "of_int 7191689089254402 * (1 / 2 ^ 53) = (3595844544627201 / 2 ^ 52::real)" by simp
  show ?thesis using e by (simp only: assms v)
qed

lemma fl_step_38:
  assumes "x = 2807882848505258 / 3595844544627201"
  shows "fl x = Some (7033440958465749 / 2 ^ 53)"
proof -
  have e: "fl (2807882848505258 / 3595844544627201) = Some (of_int 7033440958465749 * (1 / 2 ^ 53))"
    by (intro fl_eval[where e = "-1"]) simp_all
  have v: "of_int 7033440958465749 * (1 / 2 ^ 53) = (7033440958465749 / 2 ^ 53::real)" by simp
  show ?thesis using e by (simp only: assms v)
qed

lemma fl_step_39:
  assumes "x = 748768759601402 / 1198614848209067"
  shows "fl x = Some (2813376383386299 / 2 ^ 52)"
proof -
  have e: "fl (748768759601402 / 1198614848209067) = Some (of_int 5626752766772598 * (1 / 2 ^ 53))"
    by (intro fl_eval[where e = "-1"]) simp_all
  have v: "of_int 5626752766772598 * (1 / 2 ^ 53) = (2813376383386299 / 2 ^ 52::real)" by simp
  show ?thesis using e by (simp only: assms v)
qed

lemma fl_step_40:
  assumes "x = 25340641663742986550706871006353 / 2 ^ 107"
  shows "fl x = Some (703344095846575 / 2 ^ 52)"
proof -
  have e: "fl (25340641663742986550706871006353 / 2 ^ 107) = Some (of_int 5626752766772600 * (1 / 2 ^ 55))"
    by (intro fl_eval[where e = "-3"]) simp_all
  have v: "of_int 5626752766772600 * (1 / 2 ^ 55) = (703344095846575 / 2 ^ 52::real)" by simp
  show ?thesis using e by (simp only: assms v)
qed

lemma fl_step_41:
  assumes "x = 10136256665497192458554927264703 / 2 ^ 106"
  shows "fl x = Some (9002804426836157 / 2 ^ 56)"
proof -
  have e: "fl (10136256665497192458554927264703 / 2 ^ 106) = Some (of_int 9002804426836157 * (1 / 2 ^ 56))"
    by (intro fl_eval[where e = "-4"]) simp_all
  have v: "of_int 9002804426836157 * (1 / 2 ^ 56) = (9002804426836157 / 2 ^ 56::real)" by simp
  show ?thesis using e by (simp only: assms v)
qed

lemma fl_step_42:
  assumes "x = 100"
  shows "fl x = Some 100"
proof -
  have e: "fl 100 = Some (of_int 7036874417766400 * (1 / 2 ^ 46))"
    by (intro fl_eval[where e = "6"]) simp_all
  have v: "of_int 7036874417766400 * (1 / 2 ^ 46) = (100::real)" by simp
  show ?thesis using e by (simp only: assms v)
qed

lemmas fl_steps = fl_step_1 fl_step_2 fl_step_3 fl_step_4 fl_step_5 fl_step_6 fl_step_7 fl_step_8 fl_step_9 fl_step_10 fl_step_11 fl_step_12 fl_step_13 fl_step_14 fl_step_15 fl_step_16 fl_step_17 fl_step_18 fl_step_19 fl_step_20 fl_step_21 fl_step_22 fl_step_23 fl_step_24 fl_step_25 fl_step_26 fl_step_27 fl_step_28 fl_step_29 fl_step_30 fl_step_31 fl_step_32 fl_step_33 fl_step_34 fl_step_35 fl_step_36 fl_step_37 fl_step_38 fl_step_39 fl_step_40 fl_step_41 fl_step_42

lemmas fl_eval_defs = normalize_fl_def limit_fl_def norm_fl_def dot_fl_def vdiv_fl_def
  vscale_fl_def vsub_fl_def separation_force_fl_def alignment_force_fl_def cohesion_force_fl_def
  double_0_2_def default_params_def boid_c_def scan_same_def fl_zero fl_underflow fl_steps

lemma sqrt_above: "0 \<le> c \<Longrightarrow> c * c < t \<Longrightarrow> c < sqrt t"
  using real_sqrt_less_iff[of "c * c" t] by simp

lemma safe_numeral: "safe 90 1" "safe 90 (- 20)" "safe 90 (- 16)" "safe 90 double_0_2"
  "safe 500 1"
  by (simp_all add: safe_def double_0_2_def)

section \<open>Properties of the simulation core\<close>

text \<open>
  Claim C4 fails as stated on the doubles of the source. \<open>normalize\<close> of \<open>(1, 1)\<close>
  returns \<open>(r, r)\<close> with \<open>r = 0.7071067811865475\<close>, whose length is not 1 (no double
  \<open>r\<close> has \<open>2 * r * r = 1\<close>); and for the vector \<open>(2^-600, 2^-600)\<close>, which is not zero,
  the squares underflow, the computed norm is 0 and the vector is returned unchanged.
  Both hold whether or not the dot product is fused.
\<close>

theorem normalize_fl_counterexample:
  "normalize_fl False (1, 1) = Some (1592262918131443 / 2 ^ 51, 1592262918131443 / 2 ^ 51) \<and>
   normalize_fl True (1, 1) = Some (1592262918131443 / 2 ^ 51, 1592262918131443 / 2 ^ 51) \<and>
   vnorm (1592262918131443 / 2 ^ 51, 1592262918131443 / 2 ^ 51) \<noteq> 1 \<and>
   normalize_fl False (1 / 2 ^ 600, 1 / 2 ^ 600) = Some (1 / 2 ^ 600, 1 / 2 ^ 600) \<and>
   normalize_fl True (1 / 2 ^ 600, 1 / 2 ^ 600) = Some (1 / 2 ^ 600, 1 / 2 ^ 600) \<and>
   (1 / 2 ^ 600, 1 / 2 ^ 600) \<noteq> ((0, 0)::vec) \<and> vnorm (1 / 2 ^ 600, 1 / 2 ^ 600) \<noteq> 1"
  by (simp add: fl_eval_defs vnorm_def)

text \<open>
  Claim C4, amended. On doubles, \<open>normalize\<close> of the zero vector returns the zero vector
  through the branch without a division. For a vector that is not zero and whose
  components are safe for 500, the computed norm \<open>n\<close> is positive, \<open>normalize\<close> returns
  the vector of the correctly rounded quotients of the components by \<open>n\<close> (relative
  error at most \<open>2^-53\<close> each), and the length of the result differs from 1 by at most
  \<open>2^-50\<close>.
\<close>

theorem normalize_fl_unit:
  "normalize_fl fused (0, 0) = Some (0, 0) \<and>
   (safe 500 x \<and> safe 500 y \<and> (x, y) \<noteq> (0, 0) \<longrightarrow>
      (\<exists>n r. norm_fl fused (x, y) = Some n \<and> 0 < n \<and> normalize_fl fused (x, y) = Some r \<and>
         \<bar>fst r - x / n\<bar> \<le> \<bar>x / n\<bar> / 2 ^ 53 \<and> \<bar>snd r - y / n\<bar> \<le> \<bar>y / n\<bar> / 2 ^ 53 \<and>
         \<bar>vnorm r - 1\<bar> \<le> 1 / 2 ^ 50))"
proof (intro conjI impI)
  show "normalize_fl fused (0, 0) = Some (0, 0)" by (rule normalize_fl_zero)
next
  assume a: "safe 500 x \<and> safe 500 y \<and> (x, y) \<noteq> (0, 0)"
  obtain n where n: "norm_fl fused (x, y) = Some n" "0 < n"
    using norm_fl_accurate[of x y fused] a by blast
  obtain r where r: "vdiv_fl (x, y) n = Some r"
      "\<bar>fst r - x / n\<bar> \<le> \<bar>x / n\<bar> / 2 ^ 53" "\<bar>snd r - y / n\<bar> \<le> \<bar>y / n\<bar> / 2 ^ 53"
      "(1 - 1 / 2 ^ 53) / ((1 + 1 / 2 ^ 53) * (1 + 1 / 2 ^ 53)) \<le> vnorm r"
      "vnorm r \<le> (1 + 1 / 2 ^ 53) / ((1 - 1 / 2 ^ 53) * (1 - 1 / 2 ^ 53))"
    using vdiv_fl_accurate[of x y fused n] a n(1) by blast
  have c1: "(1::real) - 1 / 2 ^ 50 \<le> (1 - 1 / 2 ^ 53) / ((1 + 1 / 2 ^ 53) * (1 + 1 / 2 ^ 53))"
    by simp
  have c2: "(1 + 1 / 2 ^ 53) / ((1 - 1 / 2 ^ 53) * (1 - 1 / 2 ^ 53)) \<le> (1::real) + 1 / 2 ^ 50"
    by simp
  have "\<bar>vnorm r - 1\<bar> \<le> 1 / 2 ^ 50" using r(4,5) c1 c2 by linarith
  moreover have "normalize_fl fused (x, y) = Some r"
    using n r(1) by (simp add: normalize_fl_def)
  ultimately show "\<exists>n r. norm_fl fused (x, y) = Some n \<and> 0 < n \<and>
      normalize_fl fused (x, y) = Some r \<and>
      \<bar>fst r - x / n\<bar> \<le> \<bar>x / n\<bar> / 2 ^ 53 \<and> \<bar>snd r - y / n\<bar> \<le> \<bar>y / n\<bar> / 2 ^ 53 \<and>
      \<bar>vnorm r - 1\<bar> \<le> 1 / 2 ^ 50"
    using n r(2,3) by blast
qed

theorem normalize_fl_unit_witness:
  "safe 500 1 \<and> (1, 1) \<noteq> ((0, 0)::vec) \<and>
   norm_fl False (1, 1) = Some (6369051672525773 / 2 ^ 52) \<and>
   normalize_fl False (1, 1) = Some (1592262918131443 / 2 ^ 51, 1592262918131443 / 2 ^ 51) \<and>
   \<bar>vnorm (1592262918131443 / 2 ^ 51, 1592262918131443 / 2 ^ 51) - 1\<bar> \<le> 1 / 2 ^ 50"
proof -
  have e: "norm_fl False (1, 1) = Some (6369051672525773 / 2 ^ 52)"
      "normalize_fl False (1, 1) = Some (1592262918131443 / 2 ^ 51, 1592262918131443 / 2 ^ 51)"
    by (simp_all add: fl_eval_defs)
  show ?thesis using normalize_fl_unit [of False 1 1] e safe_numeral by auto
qed






text \<open>
  Claim C5 fails as stated on the doubles of the source. For a boid with velocity
  \<open>(2.5, 2)\<close> and one neighbour at its own position (the loop of \<open>flock\<close> then
  leaves a zero separation sum and the count 1), the separation force just after
  \<open>limit\<close> is longer than the double \<open>0.2\<close> and longer than \<open>1/5\<close>: its computed norm is
  \<open>0.20000000000000004\<close>. This holds whether or not the dot product is fused.
\<close>

theorem sub_force_fl_counterexample:
  "flock_loop default_params same_place_c 0 [0, 1] scan0 = Some scan_same \<and>
   same_place_c 0 = boid_c \<and> 0 < total_separation scan_same \<and>
   separation_force_fl False default_params boid_c scan_same = Some (- 703344095846575 / 2 ^ 52, - 9002804426836159 / 2 ^ 56) \<and>
   separation_force_fl True default_params boid_c scan_same = Some (- 703344095846575 / 2 ^ 52, - 9002804426836159 / 2 ^ 56) \<and>
   double_0_2 < vnorm (- 703344095846575 / 2 ^ 52, - 9002804426836159 / 2 ^ 56) \<and> 0.2 < vnorm (- 703344095846575 / 2 ^ 52, - 9002804426836159 / 2 ^ 56)"
proof -
  have a: "double_0_2 < vnorm (- 703344095846575 / 2 ^ 52, - 9002804426836159 / 2 ^ 56)"
    unfolding vnorm_def by (rule sqrt_above) (simp_all add: double_0_2_def)
  have b: "0.2 < vnorm (- 703344095846575 / 2 ^ 52, - 9002804426836159 / 2 ^ 56)"
    unfolding vnorm_def by (rule sqrt_above) simp_all
  have c: "flock_loop default_params same_place_c 0 [0, 1] scan0 = Some scan_same"
    by (rule flock_loop_same)
  have d: "same_place_c 0 = boid_c" by (simp add: same_place_c_def)
  have e: "0 < total_separation scan_same"
      "separation_force_fl False default_params boid_c scan_same = Some (- 703344095846575 / 2 ^ 52, - 9002804426836159 / 2 ^ 56)"
      "separation_force_fl True default_params boid_c scan_same = Some (- 703344095846575 / 2 ^ 52, - 9002804426836159 / 2 ^ 56)"
    by (simp_all add: fl_eval_defs)
  show ?thesis using a b c d e by blast
qed

text \<open>
  Claim C5, amended. On doubles, whatever the parameters, the boid and the accumulated
  sums, each rule that is applied and whose force is computed without a non-finite
  intermediate value gives a force of length at most \<open>0.2 * (1 + 2^-50)\<close> just after
  \<open>limit\<close>, before the weight is multiplied in; and \<open>limit\<close> with the bound 0.2
  returns such a vector for every argument whose components are at most \<open>2^500\<close> in
  magnitude.
\<close>

theorem sub_forces_fl_clamped:
  "(0 < total_separation acc \<longrightarrow>
      (\<forall>f. separation_force_fl fused p self acc = Some f \<longrightarrow>
           vnorm f \<le> double_0_2 * (1 + 1 / 2 ^ 50))) \<and>
   (0 < total_alignment acc \<longrightarrow>
      (\<forall>f. alignment_force_fl fused p self acc = Some f \<longrightarrow>
           vnorm f \<le> double_0_2 * (1 + 1 / 2 ^ 50))) \<and>
   (0 < total_cohesion acc \<longrightarrow>
      (\<forall>f. cohesion_force_fl fused p self acc = Some f \<longrightarrow>
           vnorm f \<le> double_0_2 * (1 + 1 / 2 ^ 50))) \<and>
   (\<bar>fst w\<bar> \<le> 2 ^ 500 \<and> \<bar>snd w\<bar> \<le> 2 ^ 500 \<longrightarrow>
      (\<exists>f. limit_fl fused w double_0_2 = Some f \<and> vnorm f \<le> double_0_2 * (1 + 1 / 2 ^ 50)))"
proof (intro conjI impI allI)
  fix f assume "separation_force_fl fused p self acc = Some f"
  then show "vnorm f \<le> double_0_2 * (1 + 1 / 2 ^ 50)" by (rule separation_force_fl_bound)
next
  fix f assume "alignment_force_fl fused p self acc = Some f"
  then show "vnorm f \<le> double_0_2 * (1 + 1 / 2 ^ 50)" by (rule alignment_force_fl_bound)
next
  fix f assume "cohesion_force_fl fused p self acc = Some f"
  then show "vnorm f \<le> double_0_2 * (1 + 1 / 2 ^ 50)" by (rule cohesion_force_fl_bound)
next
  assume "\<bar>fst w\<bar> \<le> 2 ^ 500 \<and> \<bar>snd w\<bar> \<le> 2 ^ 500"
  then obtain f where f: "limit_fl fused w double_0_2 = Some f"
    using limit_0_2_defined[of w fused] by blast
  then have "vnorm f \<le> double_0_2 * (1 + 1 / 2 ^ 50)" by (rule limit_0_2_bound)
  then show "\<exists>f. limit_fl fused w double_0_2 = Some f \<and> vnorm f \<le> double_0_2 * (1 + 1 / 2 ^ 50)"
    using f by blast
qed

theorem sub_forces_fl_clamped_witness:
  "0 < total_separation scan_same \<and> 0 < total_alignment scan_same \<and>
   0 < total_cohesion scan_same \<and>
   separation_force_fl False default_params boid_c scan_same = Some (- 703344095846575 / 2 ^ 52, - 9002804426836159 / 2 ^ 56) \<and>
   alignment_force_fl False default_params boid_c scan_same = Some (703344095846575 / 2 ^ 52, 9002804426836157 / 2 ^ 56) \<and>
   cohesion_force_fl False default_params boid_c scan_same = Some (- 703344095846575 / 2 ^ 52, - 9002804426836159 / 2 ^ 56) \<and>
   \<bar>- 5 / 2\<bar> \<le> (2::real) ^ 500 \<and> \<bar>- 2\<bar> \<le> (2::real) ^ 500 \<and>
   limit_fl False (- 5 / 2, - 2) double_0_2 = Some (- 703344095846575 / 2 ^ 52, - 9002804426836159 / 2 ^ 56) \<and>
   vnorm (- 703344095846575 / 2 ^ 52, - 9002804426836159 / 2 ^ 56) \<le> double_0_2 * (1 + 1 / 2 ^ 50) \<and>
   vnorm (703344095846575 / 2 ^ 52, 9002804426836157 / 2 ^ 56) \<le> double_0_2 * (1 + 1 / 2 ^ 50)"
proof -
  have e: "separation_force_fl False default_params boid_c scan_same = Some (- 703344095846575 / 2 ^ 52, - 9002804426836159 / 2 ^ 56)"
      "alignment_force_fl False default_params boid_c scan_same = Some (703344095846575 / 2 ^ 52, 9002804426836157 / 2 ^ 56)"
      "cohesion_force_fl False default_params boid_c scan_same = Some (- 703344095846575 / 2 ^ 52, - 9002804426836159 / 2 ^ 56)"
      "limit_fl False (- 5 / 2, - 2) double_0_2 = Some (- 703344095846575 / 2 ^ 52, - 9002804426836159 / 2 ^ 56)"
    by (simp_all add: fl_eval_defs)
  have t: "0 < total_separation scan_same" "0 < total_alignment scan_same"
      "0 < total_cohesion scan_same"
    by (simp_all add: scan_same_def)
  show ?thesis
    using sub_forces_fl_clamped [of scan_same False default_params boid_c "(- 5 / 2, - 2)"] e t
    by simp
qed

text \<open>
  Claim C6. \<open>flock\<close> always returns, and the neighbour list it leaves in \<open>self\<close> holds
  exactly the references of \<open>boids\<close> other than \<open>self\<close> whose distance is below
  \<open>perception_radius\<close>, in the order of \<open>boids\<close>; so \<open>self\<close> is never in it, although
  its distance to itself is 0.
\<close>

theorem no_self_neighbor:
  "\<exists>b. flock p s boids self = Some b \<and>
       neighbors b = filter (\<lambda>r. r \<noteq> self \<and> distance s self r < perception_radius p) boids \<and>
       self \<notin> set (neighbors b)"
proof -
  obtain acc b where acc: "flock_loop p s self boids scan0 = Some acc"
    and b: "flock p s boids self = Some b" and n: "neighbors b = seen acc"
    using flock_frame[of p s self boids] by blast
  have "seen acc = filter (\<lambda>r. r \<noteq> self \<and> distance s self r < perception_radius p) boids"
    using flock_loop_seen[OF acc] by (simp add: scan0_def)
  then show ?thesis using b n by simp
qed

theorem no_self_neighbor_witness:
  "distance near_pair 0 0 = 0 \<and> 0 < perception_radius default_params \<and>
   flock default_params near_pair [0, 1] 0 =
     Some \<lparr> position = (100, 100), velocity = (4, 0), acceleration = (- 53 / 50, 0),
            size_px = 6, neighbors = [1] \<rparr> \<and> (0::nat) \<notin> set [1]"
  using no_self_neighbor [of default_params near_pair "[0, 1]" 0]
  by (simp add: eval_defs distance_def)

text \<open>
  Claim C7. After the loop of \<open>flock\<close>, the separation count is the number of other boids
  whose distance is below both \<open>perception_radius\<close> and \<open>separation_radius\<close>, and the
  separation sum is the sum of their terms: a boid contributes to separation exactly when
  it is within both radii. When no other boid is within \<open>perception_radius\<close>, nothing
  contributes, however large \<open>separation_radius\<close> is.
\<close>

theorem separation_within_both_radii:
  "\<exists>acc. flock_loop p s self boids scan0 = Some acc \<and>
     total_separation acc =
       length (filter (\<lambda>r. r \<noteq> self \<and> distance s self r < perception_radius p
                             \<and> distance s self r < separation_radius p) boids) \<and>
     separation acc =
       foldl vadd (0, 0) (map (separation_term s self)
         (filter (\<lambda>r. r \<noteq> self \<and> distance s self r < perception_radius p
                             \<and> distance s self r < separation_radius p) boids)) \<and>
     ((\<forall>r \<in> set boids. r \<noteq> self \<longrightarrow> perception_radius p \<le> distance s self r) \<longrightarrow>
        total_separation acc = 0 \<and> separation acc = (0, 0))"
proof -
  let ?close = "\<lambda>r. r \<noteq> self \<and> distance s self r < perception_radius p
                             \<and> distance s self r < separation_radius p"
  obtain acc where acc: "flock_loop p s self boids scan0 = Some acc"
    using flock_loop_total by blast
  have n: "total_separation acc = length (filter ?close boids)"
    using flock_loop_total_separation[OF acc] by (simp add: scan0_def)
  have v: "separation acc = foldl vadd (0, 0) (map (separation_term s self) (filter ?close boids))"
    using flock_loop_separation[OF acc] by (simp add: scan0_def)
  have "filter ?close boids = []"
    if "\<forall>r \<in> set boids. r \<noteq> self \<longrightarrow> perception_radius p \<le> distance s self r"
    using that by (auto simp add: filter_empty_conv)
  then show ?thesis using acc n v by auto
qed

theorem separation_within_both_radii_witness:
  "perception_radius wide_separation < separation_radius wide_separation \<and>
   distance far_pair 0 1 = 35 \<and> distance far_pair 0 1 < separation_radius wide_separation \<and>
   perception_radius wide_separation \<le> distance far_pair 0 1 \<and>
   flock_loop wide_separation far_pair 0 [0, 1] scan0 = Some scan0 \<and>
   total_separation scan0 = 0"
  using separation_within_both_radii [of wide_separation far_pair 0 "[0, 1]"]
  by (simp add: eval_defs distance_def wide_separation_def)

text \<open>
  Claim C8. For two boids at the same position and positive radii, the distance is 0, the
  divisor \<open>distance * distance + 0.00001\<close> is positive, the division returns the zero
  vector, and the separation rule returns a force: \<open>limit\<close> of the negated own velocity,
  of length at most 0.2.
\<close>

theorem separation_at_distance_zero:
  assumes "other \<noteq> self" and "position (s other) = position (s self)"
    and "0 < perception_radius p" and "0 < separation_radius p"
  shows "distance s self other = 0 \<and>
     0 < distance s self other * distance s self other + (0.00001::real) \<and>
     vdiv (vsub (position (s self)) (position (s other)))
          (distance s self other * distance s self other + 0.00001) = Some (0, 0) \<and>
     (\<exists>acc f. flock_loop p s self [self, other] scan0 = Some acc \<and>
        total_separation acc = 1 \<and> separation acc = (0, 0) \<and>
        separation_force p (s self) acc = Some f \<and>
        limit (vsub (0, 0) (velocity (s self))) 0.2 = Some f \<and> vnorm f \<le> 0.2)"
proof -
  have diff: "vsub (position (s self)) (position (s other)) = (0, 0)"
    using assms(2) by (simp add: vsub_def)
  have d: "distance s self other = 0"
    by (simp add: distance_def diff vnorm_def)
  have q: "vdiv (vsub (position (s self)) (position (s other)))
          (distance s self other * distance s self other + 0.00001) = Some (0, 0)"
    by (simp add: diff d vdiv_def)
  obtain acc where acc: "flock_loop p s self [self, other] scan0 = Some acc"
    using flock_loop_total by blast
  have close: "distance s self other < perception_radius p"
      "distance s self other < separation_radius p"
    using d assms(3,4) by simp_all
  have n: "total_separation acc = 1"
    using flock_loop_total_separation[OF acc] close assms(1) by (simp add: scan0_def)
  have "separation acc = vadd (0, 0) (separation_term s self other)"
    using flock_loop_separation[OF acc] close assms(1) by (simp add: scan0_def)
  then have v: "separation acc = (0, 0)"
    by (simp add: separation_term_def diff vadd_def)
  obtain f where f: "separation_force p (s self) acc = Some f" and le: "vnorm f \<le> 0.2"
    using separation_force_total[of acc p "s self"] n by auto
  have "limit (vsub (0, 0) (velocity (s self))) 0.2 = Some f"
    using f n v by (simp add: separation_force_def vdiv_def normalize_vec_eq vscale_def)
  moreover have "0 < distance s self other * distance s self other + (0.00001::real)"
    by (rule separation_denominator_pos)
  ultimately show ?thesis using d q acc n v f le by blast
qed

theorem separation_at_distance_zero_witness:
  "(1::nat) \<noteq> 0 \<and> position (same_place 1) = position (same_place 0) \<and>
   0 < perception_radius default_params \<and> 0 < separation_radius default_params \<and>
   distance same_place 0 1 = 0 \<and>
   limit (vsub (0, 0) (velocity (same_place 0))) 0.2 = Some (- 1 / 5, 0)"
  using separation_at_distance_zero [of 1 0 same_place default_params]
  by (simp add: eval_defs distance_def)

text \<open>
  Claim C3 fails as stated. \<open>flock\<close> assigns \<open>self.neighbors\<close> and adds each weighted force
  to \<open>self.acceleration\<close> through \<open>apply_force\<close>: for boid 0 of \<open>near_pair\<close> the
  acceleration goes from \<open>(0, 0)\<close> to \<open>(-1.06, 0)\<close> and the neighbour list from \<open>[]\<close> to
  \<open>[1]\<close>.
\<close>

theorem flock_mutates_self_counterexample:
  "flock_store default_params near_pair [0, 1] 0 =
     Some (near_pair(0 := \<lparr> position = (100, 100), velocity = (4, 0),
       acceleration = (- 53 / 50, 0), size_px = 6, neighbors = [1] \<rparr>)) \<and>
   acceleration (near_pair 0) = (0, 0) \<and> neighbors (near_pair 0) = [] \<and>
   (- 53 / 50, 0) \<noteq> ((0, 0)::vec) \<and> [1] \<noteq> ([]::ref list)"
  by (simp add: eval_defs)

text \<open>
  Claim C3, amended. \<open>flock\<close> always returns; it leaves the position, the velocity and
  the size of \<open>self\<close> as they are, and it leaves every other boid of the store as it is.
  The fields it may write are the acceleration and the neighbour list of \<open>self\<close>.
\<close>

theorem flock_writes_only_cache:
  "\<exists>s'. flock_store p s boids self = Some s' \<and>
      position (s' self) = position (s self) \<and> velocity (s' self) = velocity (s self) \<and>
      size_px (s' self) = size_px (s self) \<and>
      (\<forall>r. r \<noteq> self \<longrightarrow> s' r = s r)"
proof -
  obtain b where b: "flock p s boids self = Some b" and "position b = position (s self)"
    "velocity b = velocity (s self)" "size_px b = size_px (s self)"
    using flock_frame[of p s self boids] by blast
  then show ?thesis by (simp add: flock_store_def)
qed

theorem flock_writes_only_cache_witness:
  "(1::nat) \<noteq> 0 \<and>
   look (flock_store default_params near_pair [0, 1] 0) 1 = Some (near_pair 1) \<and>
   look (flock_store default_params near_pair [0, 1] 0) 0 =
     Some \<lparr> position = position (near_pair 0), velocity = velocity (near_pair 0),
       acceleration = (- 53 / 50, 0), size_px = 6, neighbors = [1] \<rparr>"
  using flock_writes_only_cache [of default_params near_pair "[0, 1]" 0]
  by (simp add: eval_defs look_def)

text \<open>
  Claim C2 fails as stated. The frame loop calls \<open>flock\<close> and \<open>update\<close> for one boid
  after the other, on the store as the boids before it have left it. From \<open>far_pair\<close>
  (two boids 35 apart, flying towards each other) the order \<open>[0, 1]\<close> leaves boid 0 at
  \<open>(104, 100)\<close> with velocity \<open>(4, 0)\<close>, and the order \<open>[1, 0]\<close> leaves it at
  \<open>(103.54, 100)\<close> with velocity \<open>(3.54, 0)\<close>.
\<close>

theorem frame_order_counterexample:
  "look (frame default_params [0, 1] far_pair) 0 =
     Some \<lparr> position = (104, 100), velocity = (4, 0), acceleration = (0, 0),
            size_px = 6, neighbors = [] \<rparr> \<and>
   look (frame default_params [1, 0] far_pair) 0 =
     Some \<lparr> position = (10354 / 100, 100), velocity = (354 / 100, 0), acceleration = (0, 0),
            size_px = 6, neighbors = [1] \<rparr> \<and>
   (104, 100) \<noteq> ((10354 / 100, 100)::vec) \<and> (4, 0) \<noteq> ((354 / 100, 0)::vec)"
  by (simp add: eval_defs frame_def look_def)

text \<open>
  Claim C2, amended. For a list of distinct boids and a \<open>max_speed\<close> that is not
  negative, one frame returns, and the boid at index \<open>k\<close> of the list ends in the state
  that \<open>flock\<close> followed by \<open>update\<close> give on the store in which the boids before index
  \<open>k\<close> already hold their states of the end of the frame and all others still hold
  their states of its start. Boids that are not in the list are not written.
\<close>

theorem frame_sequential:
  assumes "0 \<le> max_speed p" and "distinct boids"
  shows "\<exists>s'. frame p boids s = Some s' \<and>
     (\<forall>k < length boids.
        \<exists>b. flock p (\<lambda>q. if q \<in> set (take k boids) then s' q else s q) boids (boids ! k) = Some b
           \<and> update p b = Some (s' (boids ! k))) \<and>
     (\<forall>q. q \<notin> set boids \<longrightarrow> s' q = s q)"
proof -
  obtain s' where s': "frame_loop p boids boids s = Some s'"
    using frame_loop_total[OF assms(1)] by blast
  have "\<exists>b. flock p (\<lambda>q. if q \<in> set (take k boids) then s' q else s q) boids (boids ! k) = Some b
           \<and> update p b = Some (s' (boids ! k))" if "k < length boids" for k
    using frame_loop_sequential[OF s' assms(2) that] .
  moreover have "s' q = s q" if "q \<notin> set boids" for q
    using frame_loop_other[OF s' that] .
  ultimately show ?thesis using s' by (simp add: frame_def)
qed

theorem frame_sequential_witness:
  "0 \<le> max_speed default_params \<and> distinct [1, 0::nat] \<and>
   look (frame default_params [1, 0] far_pair) 1 =
     Some \<lparr> position = (131, 100), velocity = (- 4, 0), acceleration = (0, 0),
            size_px = 6, neighbors = [] \<rparr> \<and>
   flock default_params (far_pair(1 := \<lparr> position = (131, 100), velocity = (- 4, 0),
       acceleration = (0, 0), size_px = 6, neighbors = [] \<rparr>)) [1, 0] 0 =
     Some \<lparr> position = (100, 100), velocity = (4, 0), acceleration = (- 46 / 100, 0),
            size_px = 6, neighbors = [1] \<rparr>"
  using frame_sequential [of default_params "[1, 0]" far_pair]
  by (simp add: eval_defs frame_def look_def)

text \<open>
  Claim C10 fails as stated on the doubles of the source. With the bound 0.2,
  \<open>limit\<close> of \<open>(-20, -16)\<close> returns a vector whose length is above the bound (its
  computed norm is \<open>0.20000000000000004\<close>), and \<open>limit\<close> of that result returns a
  different vector: the second component changes in its last bit. Both hold whether or
  not the dot product is fused.
\<close>

theorem limit_fl_counterexample:
  "limit_fl False (- 20, - 16) double_0_2 = Some (- 703344095846575 / 2 ^ 52, - 9002804426836159 / 2 ^ 56) \<and>
   limit_fl False (- 703344095846575 / 2 ^ 52, - 9002804426836159 / 2 ^ 56) double_0_2 = Some (- 703344095846575 / 2 ^ 52, - 9002804426836157 / 2 ^ 56) \<and>
   limit_fl True (- 20, - 16) double_0_2 = Some (- 703344095846575 / 2 ^ 52, - 9002804426836159 / 2 ^ 56) \<and>
   limit_fl True (- 703344095846575 / 2 ^ 52, - 9002804426836159 / 2 ^ 56) double_0_2 = Some (- 703344095846575 / 2 ^ 52, - 9002804426836157 / 2 ^ 56) \<and>
   (- 703344095846575 / 2 ^ 52, - 9002804426836159 / 2 ^ 56) \<noteq> ((- 703344095846575 / 2 ^ 52, - 9002804426836157 / 2 ^ 56)::vec) \<and>
   double_0_2 < vnorm (- 703344095846575 / 2 ^ 52, - 9002804426836159 / 2 ^ 56)"
proof -
  have "double_0_2 < vnorm (- 703344095846575 / 2 ^ 52, - 9002804426836159 / 2 ^ 56)"
    unfolding vnorm_def by (rule sqrt_above) (simp_all add: double_0_2_def)
  then show ?thesis by (simp add: fl_eval_defs)
qed

text \<open>
  Claim C10, amended. On doubles, for a vector and a positive bound \<open>m\<close> that are safe
  for 90: the computed norm \<open>n\<close> is within a relative error of \<open>2^-51\<close> of the length;
  when \<open>n \<le> m\<close>, \<open>limit\<close> returns the vector unchanged; when \<open>m < n\<close> it returns a
  vector whose components are those of the argument times \<open>m / n\<close> up to a relative
  error of \<open>2^-51\<close>, whose length is \<open>m\<close> up to a relative error of \<open>2^-50\<close> and
  exceeds the length of the argument by at most that relative error, and on which a
  second \<open>limit\<close> changes each component by a relative error of at most \<open>2^-49\<close>.
\<close>

theorem limit_fl_clamps:
  assumes "safe 90 x" and "safe 90 y" and "safe 90 m" and "0 < m"
  shows "\<exists>n. norm_fl fused (x, y) = Some n \<and> \<bar>n - vnorm (x, y)\<bar> \<le> vnorm (x, y) / 2 ^ 51 \<and>
     (n \<le> m \<longrightarrow> limit_fl fused (x, y) m = Some (x, y)) \<and>
     (m < n \<longrightarrow>
        (\<exists>f. limit_fl fused (x, y) m = Some f \<and>
           \<bar>fst f - x / n * m\<bar> \<le> \<bar>x / n * m\<bar> / 2 ^ 51 \<and>
           \<bar>snd f - y / n * m\<bar> \<le> \<bar>y / n * m\<bar> / 2 ^ 51 \<and>
           \<bar>vnorm f - m\<bar> \<le> m / 2 ^ 50 \<and>
           vnorm f \<le> vnorm (x, y) * (1 + 1 / 2 ^ 50) \<and>
           (\<exists>g. limit_fl fused f m = Some g \<and>
              \<bar>fst g - fst f\<bar> \<le> \<bar>fst f\<bar> / 2 ^ 49 \<and> \<bar>snd g - snd f\<bar> \<le> \<bar>snd f\<bar> / 2 ^ 49)))"
proof (cases "(x, y) = (0, 0)")
  case True
  have "norm_fl fused (x, y) = Some 0" using True by (simp add: norm_fl_zero)
  moreover have "limit_fl fused (x, y) m = Some (x, y)"
    using True assms(4) by (simp add: limit_fl_def norm_fl_zero)
  moreover have "vnorm (x, y) = 0" using True by (simp add: vnorm_def)
  ultimately show ?thesis using assms(4) by simp
next
  case False
  let ?v = "vnorm (x, y)"
  have x3: "safe 300 x" and y3: "safe 300 y" and m3: "safe 300 m"
    using assms(1-3) by (simp_all add: safe_90_300)
  have x5: "safe 500 x" and y5: "safe 500 y" using x3 y3 by (simp_all add: safe_mono)
  obtain n where n: "norm_fl fused (x, y) = Some n" "0 < n"
      "?v * ((1 - 1 / 2 ^ 53) * (1 - 1 / 2 ^ 53)) \<le> n"
      "n \<le> ?v * ((1 + 1 / 2 ^ 53) * (1 + 1 / 2 ^ 53))" "?v \<le> 2 ^ 501"
    using norm_fl_accurate[OF x5 y5 False, of fused] by auto
  have v0: "0 \<le> ?v" by (rule vnorm_nonneg)
  have c53: "(2::real) ^ 53 = 9007199254740992" and c51: "(2::real) ^ 51 = 2251799813685248"
    and c50: "(2::real) ^ 50 = 1125899906842624" by simp_all
  have "?v * (1 - 1 / 2 ^ 51) \<le> ?v * ((1 - 1 / 2 ^ 53) * (1 - 1 / 2 ^ 53))"
    using v0 by (intro mult_left_mono) simp_all
  moreover have "?v * ((1 + 1 / 2 ^ 53) * (1 + 1 / 2 ^ 53)) \<le> ?v * (1 + 1 / 2 ^ 51)"
    using v0 by (intro mult_left_mono) simp_all
  ultimately have "?v * (1 - 1 / 2 ^ 51) \<le> n" "n \<le> ?v * (1 + 1 / 2 ^ 51)"
    using n(3,4) by linarith+
  then have near: "\<bar>n - ?v\<bar> \<le> ?v / 2 ^ 51"
    by (simp add: algebra_simps abs_if)
  have within: "limit_fl fused (x, y) m = Some (x, y)" if "n \<le> m"
    using n(1) that by (rule limit_fl_within)
  have beyond: "\<exists>f. limit_fl fused (x, y) m = Some f \<and>
           \<bar>fst f - x / n * m\<bar> \<le> \<bar>x / n * m\<bar> / 2 ^ 51 \<and>
           \<bar>snd f - y / n * m\<bar> \<le> \<bar>y / n * m\<bar> / 2 ^ 51 \<and>
           \<bar>vnorm f - m\<bar> \<le> m / 2 ^ 50 \<and>
           vnorm f \<le> ?v * (1 + 1 / 2 ^ 50) \<and>
           (\<exists>g. limit_fl fused f m = Some g \<and>
              \<bar>fst g - fst f\<bar> \<le> \<bar>fst f\<bar> / 2 ^ 49 \<and> \<bar>snd g - snd f\<bar> \<le> \<bar>snd f\<bar> / 2 ^ 49)"
    if mn: "m < n"
  proof -
    obtain f where f: "limit_fl fused (x, y) m = Some f"
        "\<bar>fst f - x / n * m\<bar> \<le> 3 / 2 ^ 53 * \<bar>x / n * m\<bar>"
        "\<bar>snd f - y / n * m\<bar> \<le> 3 / 2 ^ 53 * \<bar>y / n * m\<bar>"
        "m * ((1 - 3 / 2 ^ 53) / ((1 + 1 / 2 ^ 53) * (1 + 1 / 2 ^ 53))) \<le> vnorm f"
        "vnorm f \<le> m * ((1 + 3 / 2 ^ 53) / ((1 - 1 / 2 ^ 53) * (1 - 1 / 2 ^ 53)))"
      using limit_fl_scaled[OF x3 y3 False m3 assms(4) n(1) mn] by blast
    have fx: "\<bar>fst f - x / n * m\<bar> \<le> \<bar>x / n * m\<bar> / 2 ^ 51"
      using f(2) by (rule rel_weaken) simp
    have fy: "\<bar>snd f - y / n * m\<bar> \<le> \<bar>y / n * m\<bar> / 2 ^ 51"
      using f(3) by (rule rel_weaken) simp
    have "m * (1 - 1 / 2 ^ 50) \<le> m * ((1 - 3 / 2 ^ 53) / ((1 + 1 / 2 ^ 53) * (1 + 1 / 2 ^ 53)))"
      using assms(4) by (intro mult_left_mono) simp_all
    moreover have hi50: "m * ((1 + 3 / 2 ^ 53) / ((1 - 1 / 2 ^ 53) * (1 - 1 / 2 ^ 53)))
        \<le> m * (1 + 1 / 2 ^ 49 / 3)"
      using assms(4) by (intro mult_left_mono) simp_all
    moreover have "m * (1 + 1 / 2 ^ 49 / 3) \<le> m * (1 + 1 / 2 ^ 50)"
      using assms(4) by (intro mult_left_mono) simp_all
    ultimately have "m * (1 - 1 / 2 ^ 50) \<le> vnorm f" "vnorm f \<le> m * (1 + 1 / 2 ^ 50)"
      using f(4,5) by linarith+
    then have mag: "\<bar>vnorm f - m\<bar> \<le> m / 2 ^ 50"
      by (simp add: algebra_simps abs_if)
    have noinc: "vnorm f \<le> ?v * (1 + 1 / 2 ^ 50)"
    proof -
      have "vnorm f \<le> m * (1 + 1 / 2 ^ 49 / 3)" using f(5) hi50 by linarith
      also have "\<dots> \<le> n * (1 + 1 / 2 ^ 49 / 3)"
        using mn by (intro mult_right_mono) simp_all
      also have "\<dots> \<le> (?v * ((1 + 1 / 2 ^ 53) * (1 + 1 / 2 ^ 53))) * (1 + 1 / 2 ^ 49 / 3)"
        using n(4) by (intro mult_right_mono) simp_all
      also have "\<dots> = ?v * (((1 + 1 / 2 ^ 53) * (1 + 1 / 2 ^ 53)) * (1 + 1 / 2 ^ 49 / 3))"
        by (simp only: mult.assoc)
      also have "\<dots> \<le> ?v * (1 + 1 / 2 ^ 50)"
        using v0 by (intro mult_left_mono) simp_all
      finally show ?thesis .
    qed
    have nb: "n \<le> 2 ^ 92"
    proof -
      have "\<bar>x\<bar> \<le> 2 ^ 90" "\<bar>y\<bar> \<le> 2 ^ 90" using assms(1,2) by (auto simp add: safe_def)
      then have "?v \<le> 2 ^ 91" using vnorm_le_sum[of "(x, y)"] by simp
      then have "?v * ((1 + 1 / 2 ^ 53) * (1 + 1 / 2 ^ 53))
          \<le> 2 ^ 91 * ((1 + 1 / 2 ^ 53) * (1 + 1 / 2 ^ 53))"
        by (intro mult_right_mono) simp_all
      then show ?thesis using n(4) by simp
    qed
    have cx: "\<bar>x\<bar> \<le> ?v" and cy: "\<bar>y\<bar> \<le> ?v" using abs_le_vnorm[of "(x, y)"] by simp_all
    have qx: "\<bar>x / n\<bar> \<le> 2" using quotient_rounded(2)[OF x5 cx n(5) n(3) n(4) n(2)] .
    have qy: "\<bar>y / n\<bar> \<le> 2" using quotient_rounded(2)[OF y5 cy n(5) n(3) n(4) n(2)] .
    have sfx: "safe 300 (fst f)" and nzx: "x \<noteq> 0 \<Longrightarrow> fst f \<noteq> 0"
      using limit_component_safe[OF assms(1) assms(3) assms(4) n(2) nb qx f(2)] by simp_all
    have sfy: "safe 300 (snd f)" and nzy: "y \<noteq> 0 \<Longrightarrow> snd f \<noteq> 0"
      using limit_component_safe[OF assms(2) assms(3) assms(4) n(2) nb qy f(3)] by simp_all
    have fnz: "(fst f, snd f) \<noteq> (0, 0)" using False nzx nzy by auto
    have again: "\<exists>g. limit_fl fused (fst f, snd f) m = Some g \<and>
        \<bar>fst g - fst f\<bar> \<le> \<bar>fst f\<bar> / 2 ^ 49 \<and> \<bar>snd g - snd f\<bar> \<le> \<bar>snd f\<bar> / 2 ^ 49"
      using relimit_close[OF sfx sfy fnz m3 assms(4)] f(5) by simp
    show ?thesis using f(1) fx fy mag noinc again by auto
  qed
  show ?thesis using n(1) near within beyond by blast
qed

theorem limit_fl_clamps_witness:
  "safe 90 (- 20) \<and> safe 90 (- 16) \<and> safe 90 double_0_2 \<and> 0 < double_0_2 \<and>
   norm_fl False (- 20, - 16) = Some (28161238212607 / 2 ^ 40) \<and> double_0_2 < 28161238212607 / 2 ^ 40 \<and>
   limit_fl False (- 20, - 16) double_0_2 = Some (- 703344095846575 / 2 ^ 52, - 9002804426836159 / 2 ^ 56) \<and>
   \<bar>vnorm (- 703344095846575 / 2 ^ 52, - 9002804426836159 / 2 ^ 56) - double_0_2\<bar> \<le> double_0_2 / 2 ^ 50"
proof -
  have e: "norm_fl False (- 20, - 16) = Some (28161238212607 / 2 ^ 40)"
      "limit_fl False (- 20, - 16) double_0_2 = Some (- 703344095846575 / 2 ^ 52, - 9002804426836159 / 2 ^ 56)"
    by (simp_all add: fl_eval_defs)
  have m: "0 < double_0_2" "double_0_2 < 28161238212607 / 2 ^ 40" by (simp_all add: double_0_2_def)
  show ?thesis
    using limit_fl_clamps [of "- 20" "- 16" double_0_2 False] e m safe_numeral by auto
qed

end
